theory Spec2Isabelle
  imports Complex_Main
begin

section \<open>Labeled arrays\<close>

text \<open>
  The module \<open>xrft.py\<close> works on \<open>xarray.DataArray\<close> data backed by NumPy arrays.
  A NumPy array is a shape together with its items, addressed by a position per axis;
  a labeled array adds a name per axis, the coordinate vector of each named axis and the
  \<open>spacing\<close> attribute that the transforms attach to a coordinate.

  Scope of the embedding: coordinates are numeric (the datetime branches of
  \<open>_diff_coord\<close> and \<open>_lag_coord\<close> are conversions to seconds and are left out), arrays
  are eager (\<open>da.chunks\<close> is \<open>None\<close>, so \<open>_fft_module\<close> picks \<open>numpy.fft\<close>), warnings are
  not modelled, and arithmetic is the exact arithmetic of real and complex numbers:
  rounding of floating-point operations is abstracted away.
\<close>

record ndarray =
  shape :: "nat list"
  item :: "nat list \<Rightarrow> complex"

record xarray =
  dims :: "string list"
  coords :: "string \<rightharpoonup> real list"
  spacing :: "string \<rightharpoonup> real"
  data :: ndarray

datatype error =
    InvalidDimensionError
  | ChunksTypeError
  | AxisError string
  | IndexError
  | NonUniformSpacingError string
  | DegenerateAxisError string
  | UncenteredSpectrumError string
  | LagLengthError
  | NameError
  | KeyError string
  | AttributeError string
  | AlignmentError string
  | MismatchedDimensionsError
  | InvalidScalingError string
  | ZeroDivisionError
  | BinsError

text \<open>
  The constructors follow the taxonomy of the specification; in the source all but
  the built-in ones are \<open>ValueError\<close>s told apart by their message.
  \<open>InvalidDimensionError\<close>: the real axis is not a dimension of the array.
  \<open>ChunksTypeError\<close>: \<open>_stack_chunks\<close> subscripts \<open>da.chunks\<close>, which is \<open>None\<close> for an
  eager array. \<open>AxisError d\<close>: \<open>get_axis_num\<close> of a name that is no dimension.
  \<open>IndexError\<close>: \<open>diff[0]\<close> or \<open>k[1]\<close> on a vector that is too short.
  \<open>NameError\<close>: \<open>idft\<close> calls \<open>_apply_detrend\<close>, which the module never defines.
  \<open>KeyError d\<close>: \<open>daft[d]\<close> of a name that is no dimension. \<open>AttributeError d\<close>: the
  coordinate \<open>d\<close> has no \<open>spacing\<close> attribute. \<open>AlignmentError d\<close>: the labeled-array
  product cannot align its operands along \<open>d\<close>.
\<close>

definition bindE :: "error + 'a \<Rightarrow> ('a \<Rightarrow> error + 'b) \<Rightarrow> error + 'b" where
  "bindE m f = (case m of Inl e \<Rightarrow> Inl e | Inr x \<Rightarrow> f x)"

fun mapE :: "('a \<Rightarrow> error + 'b) \<Rightarrow> 'a list \<Rightarrow> error + 'b list" where
  "mapE f [] = Inr []"
| "mapE f (x # xs) = bindE (f x) (\<lambda>y. bindE (mapE f xs) (\<lambda>ys. Inr (y # ys)))"

fun index_of :: "'a list \<Rightarrow> 'a \<Rightarrow> nat" where
  "index_of [] a = 0"
| "index_of (x # xs) a = (if x = a then 0 else Suc (index_of xs a))"

definition get_axis_num :: "xarray \<Rightarrow> string \<Rightarrow> error + nat" where
  "get_axis_num da d = (if d \<in> set (dims da) then Inr (index_of (dims da) d) else Inl (AxisError d))"

text \<open>\<open>da[d]\<close>: the coordinate of a dimension, the positions \<open>0 .. n-1\<close> when it has none.\<close>

definition coord :: "xarray \<Rightarrow> string \<Rightarrow> real list" where
  "coord da d = (case coords da d of Some c \<Rightarrow> c
     | None \<Rightarrow> map real [0 ..< shape (data da) ! index_of (dims da) d])"

definition valid_index :: "nat list \<Rightarrow> nat list \<Rightarrow> bool" where
  "valid_index shp idx = list_all2 (<) idx shp"

text \<open>\<open>da.transpose(*names)\<close>: the same items, the axes in the order of \<open>names\<close>.\<close>

definition transpose_nd :: "nat list \<Rightarrow> ndarray \<Rightarrow> ndarray" where
  "transpose_nd perm a =
     \<lparr>shape = map (\<lambda>p. shape a ! p) perm,
      item = (\<lambda>idx. item a (map (\<lambda>i. idx ! index_of perm i) [0 ..< length (shape a)]))\<rparr>"

definition transpose_xr :: "xarray \<Rightarrow> string list \<Rightarrow> xarray" where
  "transpose_xr da names =
     da\<lparr>dims := names, data := transpose_nd (map (index_of (dims da)) names) (data da)\<rparr>"

section \<open>NumPy collaborators\<close>

text \<open>
  The functions of \<open>numpy\<close> and \<open>numpy.fft\<close> that the module calls, after their
  documentation. One-dimensional vectors are lists.
\<close>

definition np_diff :: "real list \<Rightarrow> real list" where
  "np_diff c = map (\<lambda>i. c ! Suc i - c ! i) [0 ..< length c - 1]"

text \<open>
  \<open>numpy.allclose(a, b, rtol)\<close> with a scalar \<open>b\<close>: every element satisfies
  \<open>|a - b| \<le> atol + rtol * |b|\<close>, where \<open>atol\<close> keeps its default \<open>1e-8\<close>.
\<close>

definition np_atol :: real where
  "np_atol = 1 / 10 ^ 8"

definition np_allclose :: "real list \<Rightarrow> real \<Rightarrow> real \<Rightarrow> bool" where
  "np_allclose a b rtol = list_all (\<lambda>x. \<bar>x - b\<bar> \<le> np_atol + rtol * \<bar>b\<bar>) a"

text \<open>\<open>fftfreq(n, d)\<close>: \<open>[0, 1, ..., (n-1) div 2, -(n div 2), ..., -1] / (d*n)\<close>.\<close>

definition fftfreq :: "nat \<Rightarrow> real \<Rightarrow> real list" where
  "fftfreq n d =
     map (\<lambda>i. (if i < (n - 1) div 2 + 1 then real i else real i - real n) / (real n * d)) [0 ..< n]"

text \<open>\<open>rfftfreq(n, d)\<close>: \<open>[0, 1, ..., n div 2] / (d*n)\<close>.\<close>

definition rfftfreq :: "nat \<Rightarrow> real \<Rightarrow> real list" where
  "rfftfreq n d = map (\<lambda>i. real i / (real n * d)) [0 ..< n div 2 + 1]"

text \<open>\<open>fftshift\<close> rolls a vector by \<open>n div 2\<close>, \<open>ifftshift\<close> by \<open>-(n div 2)\<close>.\<close>

definition fftshift :: "'a list \<Rightarrow> 'a list" where
  "fftshift xs = drop (length xs - length xs div 2) xs @ take (length xs - length xs div 2) xs"

definition ifftshift :: "'a list \<Rightarrow> 'a list" where
  "ifftshift xs = drop (length xs div 2) xs @ take (length xs div 2) xs"

text \<open>
  The one-dimensional kernels. \<open>fft\<close>: \<open>A k = \<Sum>m<n. a m * exp (-2 pi i m k / n)\<close>;
  \<open>ifft\<close>: \<open>a m = (1/n) * \<Sum>k<n. A k * exp (2 pi i m k / n)\<close>; \<open>rfft\<close> keeps the first
  \<open>n div 2 + 1\<close> terms of the \<open>fft\<close> of the real part of its input; \<open>irfft\<close> with the
  default output length \<open>2 * (m - 1)\<close> extends its input to a Hermitian-symmetric
  spectrum and returns the real inverse transform.
\<close>

definition fft1 :: "complex list \<Rightarrow> complex list" where
  "fft1 a = map (\<lambda>k. \<Sum>m<length a. a ! m * cis (- (2 * pi * real m * real k / real (length a))))
     [0 ..< length a]"

definition ifft1 :: "complex list \<Rightarrow> complex list" where
  "ifft1 a = map (\<lambda>m. (\<Sum>k<length a. a ! k * cis (2 * pi * real m * real k / real (length a)))
       / of_nat (length a))
     [0 ..< length a]"

definition rfft1 :: "complex list \<Rightarrow> complex list" where
  "rfft1 a = take (length a div 2 + 1) (fft1 (map (\<lambda>z. complex_of_real (Re z)) a))"

definition hermitian_ext :: "complex list \<Rightarrow> complex list" where
  "hermitian_ext a =
     map (\<lambda>k. if k < length a then a ! k else cnj (a ! (2 * (length a - 1) - k)))
       [0 ..< 2 * (length a - 1)]"

definition irfft1 :: "complex list \<Rightarrow> complex list" where
  "irfft1 a = map (\<lambda>z. complex_of_real (Re z)) (ifft1 (hermitian_ext a))"

text \<open>A one-dimensional operation applied along one axis of an array.\<close>

definition lane :: "ndarray \<Rightarrow> nat \<Rightarrow> nat list \<Rightarrow> complex list" where
  "lane a ax idx = map (\<lambda>j. item a (idx[ax := j])) [0 ..< shape a ! ax]"

definition along :: "(complex list \<Rightarrow> complex list) \<Rightarrow> nat \<Rightarrow> ndarray \<Rightarrow> ndarray" where
  "along g ax a =
     \<lparr>shape = (shape a)[ax := length (g (lane a ax (replicate (length (shape a)) 0)))],
      item = (\<lambda>idx. g (lane a ax idx) ! (idx ! ax))\<rparr>"

text \<open>
  \<open>fftshift(x, axes)\<close> and \<open>ifftshift(x, axes)\<close> roll every listed axis;
  \<open>fftn\<close> and \<open>ifftn\<close> run the one-dimensional kernel over the axes from the last to the
  first; \<open>rfftn\<close> runs \<open>rfft\<close> over the last axis, then \<open>fft\<close> over the others in order;
  \<open>irfftn\<close> runs \<open>ifft\<close> over all axes but the last, then \<open>irfft\<close> over the last.
\<close>

definition fftshift_nd :: "nat list \<Rightarrow> ndarray \<Rightarrow> ndarray" where
  "fftshift_nd axes a = fold (along fftshift) axes a"

definition ifftshift_nd :: "nat list \<Rightarrow> ndarray \<Rightarrow> ndarray" where
  "ifftshift_nd axes a = fold (along ifftshift) axes a"

definition fftn :: "nat list \<Rightarrow> ndarray \<Rightarrow> ndarray" where
  "fftn axes a = fold (along fft1) (rev axes) a"

definition ifftn :: "nat list \<Rightarrow> ndarray \<Rightarrow> ndarray" where
  "ifftn axes a = fold (along ifft1) (rev axes) a"

definition rfftn :: "nat list \<Rightarrow> ndarray \<Rightarrow> ndarray" where
  "rfftn axes a = fold (along fft1) (butlast axes) (along rfft1 (last axes) a)"

definition irfftn :: "nat list \<Rightarrow> ndarray \<Rightarrow> ndarray" where
  "irfftn axes a = along irfft1 (last axes) (fold (along ifft1) (butlast axes) a)"


definition mul_along :: "nat \<Rightarrow> complex list \<Rightarrow> ndarray \<Rightarrow> ndarray" where
  "mul_along ax w a = a\<lparr>item := (\<lambda>idx. item a idx * w ! (idx ! ax))\<rparr>"

definition scale_nd :: "complex \<Rightarrow> ndarray \<Rightarrow> ndarray" where
  "scale_nd c a = a\<lparr>item := (\<lambda>idx. c * item a idx)\<rparr>"

text \<open>\<open>numpy.hanning(M)\<close>: \<open>0.5 - 0.5 * cos (2 pi n / (M - 1))\<close>, and \<open>[1]\<close> when \<open>M = 1\<close>.\<close>

definition hanning :: "nat \<Rightarrow> real list" where
  "hanning M = (if M = 1 then [1]
     else map (\<lambda>n. 1 / 2 - 1 / 2 * cos (2 * pi * real n / real (M - 1))) [0 ..< M])"

section \<open>Options\<close>

text \<open>
  The keyword arguments that \<open>dft\<close> and \<open>idft\<close> share and that the spectral functions
  pass on as \<open>**kwargs\<close>. \<open>dim\<close> and \<open>real\<close> are arguments of their own (\<open>real\<close> is written
  \<open>real_dim\<close>), as is \<open>lag\<close> of \<open>idft\<close>. \<open>dim\<close> is a list of names (a single name is the
  list of that name).
\<close>

record kwargs =
  spacing_tol :: real
  shift :: bool
  detrend :: "string option"
  window :: bool
  true_phase :: bool
  true_amplitude :: bool
  chunks_to_segments :: bool
  prefix :: string

definition defaults :: kwargs where
  "defaults = \<lparr>spacing_tol = 1 / 1000, shift = True, detrend = None, window = False,
     true_phase = False, true_amplitude = False, chunks_to_segments = False,
     prefix = ''freq_''\<rparr>"

text \<open>
  \<open>_detrend\<close> comes from the module \<open>detrend\<close>, which is not part of the sources at hand:
  it is a parameter of every function that reaches it.
\<close>

type_synonym detrend_fn = "xarray \<Rightarrow> string list \<Rightarrow> string \<Rightarrow> error + xarray"

section \<open>Helpers of the transforms\<close>

definition apply_window :: "xarray \<Rightarrow> string list \<Rightarrow> xarray" where
  "apply_window da dm =
     da\<lparr>data := fold (\<lambda>d. mul_along (index_of (dims da) d)
                    (map complex_of_real (hanning (length (coord da d)))))
                  (rev dm) (data da)\<rparr>"

text \<open>
  \<open>_stack_chunks\<close> on an eager array: the first dimension that is to be split reads
  \<open>da.chunks[axis_num]\<close> and fails; with nothing to split, the array is rebuilt with
  the coordinate values of every dimension and without their attributes.
\<close>

definition stack_chunks :: "xarray \<Rightarrow> string list \<Rightarrow> error + xarray" where
  "stack_chunks da dm =
     (if \<exists>d \<in> set (dims da). d \<in> set dm then Inl ChunksTypeError
      else Inr \<lparr>dims = dims da,
                coords = (\<lambda>d. if d \<in> set (dims da) then Some (coord da d) else None),
                spacing = Map.empty,
                data = \<lparr>shape = map (\<lambda>d. length (coord da d)) (dims da), item = item (data da)\<rparr>\<rparr>)"

definition freq :: "nat list \<Rightarrow> real list \<Rightarrow> string option \<Rightarrow> bool \<Rightarrow> real list list" where
  "freq N delta_x real_dim shft =
     (let fns = (case real_dim of None \<Rightarrow> replicate (length N) fftfreq
                 | Some r \<Rightarrow> replicate (length N - 1) fftfreq @ [rfftfreq]);
          k = map (\<lambda>(fn, Nx, dx). fn Nx dx) (zip fns (zip N delta_x))
      in if shft then map fftshift k else k)"

definition ifreq :: "nat list \<Rightarrow> real list \<Rightarrow> string option \<Rightarrow> bool \<Rightarrow> real list list" where
  "ifreq N delta_x real_dim shft =
     (let irfftfreq = (\<lambda>Nx dx. fftfreq (2 * (Nx - 1)) dx);
          fns = (case real_dim of None \<Rightarrow> replicate (length N) fftfreq
                 | Some r \<Rightarrow> replicate (length N - 1) fftfreq @ [irfftfreq]);
          k = map (\<lambda>(fn, Nx, dx). fn Nx dx) (zip fns (zip N delta_x))
      in if shft then map fftshift k else k)"

text \<open>
  The new name of a transformed dimension:
  \<open>prefix + d if d[:len(prefix)] != prefix else d[len(prefix):]\<close>.
\<close>

definition new_name :: "string \<Rightarrow> string \<Rightarrow> string" where
  "new_name p d = (if take (length p) d \<noteq> p then p @ d else drop (length p) d)"

text \<open>
  \<open>_new_dims_and_coords\<close> returns the new coordinates (here with their \<open>spacing\<close>
  attribute in a map of its own) and the renaming \<open>swap_dims\<close>.
\<close>

type_synonym relabeling = "(string \<rightharpoonup> real list) \<times> (string \<rightharpoonup> real) \<times> (string \<rightharpoonup> string)"

fun new_dims_loop :: "(string \<rightharpoonup> real list) \<Rightarrow> string \<Rightarrow> string list \<Rightarrow> relabeling \<Rightarrow> error + relabeling" where
  "new_dims_loop wavenm p [] acc = Inr acc"
| "new_dims_loop wavenm p (d # ds) (new_coords, attrs, swap_dims) =
     (case wavenm d of None \<Rightarrow> Inl IndexError
      | Some k \<Rightarrow>
          if length k < 2 then Inl IndexError
          else new_dims_loop wavenm p ds
                 (new_coords(new_name p d \<mapsto> k), attrs(new_name p d \<mapsto> k ! 1 - k ! 0),
                  swap_dims(d \<mapsto> new_name p d)))"

definition new_dims_and_coords :: "string list \<Rightarrow> real list list \<Rightarrow> string \<Rightarrow> error + relabeling" where
  "new_dims_and_coords dm wavenm p =
     new_dims_loop (map_of (rev (zip dm wavenm))) p dm (Map.empty, Map.empty, Map.empty)"

definition diff_coord :: "real list \<Rightarrow> real list" where
  "diff_coord c = np_diff c"

definition lag_coord :: "real list \<Rightarrow> real" where
  "lag_coord c = c ! (length c div 2)"

text \<open>
  The array that both transforms build from the kernel output \<open>f\<close>: the dimensions of
  \<open>da\<close> renamed by \<open>swap_dims\<close>, the coordinates of the untouched dimensions, the new
  coordinates, and no coordinate under a transformed name.
\<close>

definition relabel :: "xarray \<Rightarrow> ndarray \<Rightarrow> string list \<Rightarrow> relabeling \<Rightarrow> xarray" where
  "relabel da f dm r =
     (case r of (new_coords, attrs, swap_dims) \<Rightarrow>
        \<lparr>dims = map (\<lambda>d. case swap_dims d of Some n \<Rightarrow> n | None \<Rightarrow> d) (dims da),
         coords = ((coords da |` (- set dm)) ++ new_coords) |` (- set dm),
         spacing = ((spacing da |` (- set dm)) ++ attrs) |` (- set dm),
         data = f\<rparr>)"

definition resolve_dim :: "xarray \<Rightarrow> string list option \<Rightarrow> string option \<Rightarrow> error + string list" where
  "resolve_dim da dm real_dim =
     (let dm0 = (case dm of None \<Rightarrow> dims da | Some ds \<Rightarrow> ds)
      in case real_dim of None \<Rightarrow> Inr dm0
         | Some r \<Rightarrow> if r \<notin> set (dims da) then Inl InvalidDimensionError
                     else Inr (filter (\<lambda>d. d \<noteq> r) dm0 @ [r]))"

definition real_last :: "xarray \<Rightarrow> string option \<Rightarrow> xarray" where
  "real_last da real_dim =
     (case real_dim of None \<Rightarrow> da
      | Some r \<Rightarrow> transpose_xr da (filter (\<lambda>d. d \<noteq> r) (dims da) @ [r]))"

definition truthy :: "string option \<Rightarrow> bool" where
  "truthy s = (case s of None \<Rightarrow> False | Some t \<Rightarrow> t \<noteq> [])"

section \<open>The forward transform\<close>

text \<open>The spacing check of \<open>dft\<close> for one dimension, returning \<open>(delta, lag)\<close>.\<close>

definition dft_check :: "real \<Rightarrow> xarray \<Rightarrow> string \<Rightarrow> error + real \<times> real" where
  "dft_check tol da d =
     (let c = coord da d; diff = diff_coord c
      in if diff = [] then Inl IndexError
         else if \<not> np_allclose diff (diff ! 0) tol then Inl (NonUniformSpacingError d)
         else if \<bar>diff ! 0\<bar> = 0 then Inl (DegenerateAxisError d)
         else Inr (\<bar>diff ! 0\<bar>, lag_coord c))"

definition phase_ramp :: "real list \<Rightarrow> real \<Rightarrow> complex list" where
  "phase_ramp k lag = map (\<lambda>f. cis (- (2 * pi * f * lag))) k"

fun apply_phase :: "(string \<rightharpoonup> real list) \<Rightarrow> (string \<times> real) list \<Rightarrow> xarray \<Rightarrow> error + xarray" where
  "apply_phase new_coords [] daft = Inr daft"
| "apply_phase new_coords ((up_dim, lag) # rest) daft =
     (case new_coords up_dim of None \<Rightarrow> Inl (AxisError up_dim)
      | Some k \<Rightarrow> apply_phase new_coords rest
          (daft\<lparr>data := mul_along (index_of (dims daft) up_dim) (phase_ramp k lag) (data daft)\<rparr>))"

text \<open>
  The body of \<open>dft\<close> in three parts, in the order of the source: the kernel call with
  its shifts (\<open>fft_fn\<close>, \<open>ifftshift\<close>, \<open>fftshift\<close>), the labelling of the kernel output
  (\<open>_freq\<close>, \<open>_new_dims_and_coords\<close>, phase and amplitude, the final transpose), and the
  function itself, which resolves the dimensions, checks the spacing of every
  transformed coordinate, detrends and windows, then runs the two parts.
  \<open>shift\<close> is set to \<open>False\<close> as soon as \<open>real\<close> is given.
\<close>

definition forced_shift :: "string option \<Rightarrow> kwargs \<Rightarrow> bool" where
  "forced_shift real_dim kw = (case real_dim of None \<Rightarrow> shift kw | Some r \<Rightarrow> False)"

definition dft_kernel :: "string option \<Rightarrow> kwargs \<Rightarrow> nat list \<Rightarrow> ndarray \<Rightarrow> ndarray" where
  "dft_kernel real_dim kw axis_num a =
     (let fft_fn = (case real_dim of None \<Rightarrow> fftn | Some r \<Rightarrow> rfftn);
          f = (if true_phase kw then fft_fn axis_num (ifftshift_nd axis_num a)
               else fft_fn axis_num a)
      in if forced_shift real_dim kw then fftshift_nd axis_num f else f)"

definition swapped :: "(string \<rightharpoonup> string) \<Rightarrow> string list \<Rightarrow> string list" where
  "swapped swap_dims names = map (\<lambda>d. case swap_dims d of Some n \<Rightarrow> n | None \<Rightarrow> d) names"

definition dft_finish ::
  "string option \<Rightarrow> kwargs \<Rightarrow> string list \<Rightarrow> string list \<Rightarrow> nat list \<Rightarrow> real list \<Rightarrow> real list
     \<Rightarrow> xarray \<Rightarrow> ndarray \<Rightarrow> error + xarray" where
  "dft_finish real_dim kw rawdims dm N delta_x lag_x da f =
     bindE (new_dims_and_coords dm (freq N delta_x real_dim (forced_shift real_dim kw)) (prefix kw)) (\<lambda>r.
     bindE (mapE (get_axis_num da) dm) (\<lambda>axes.
     bindE (if true_phase kw
            then apply_phase (fst r) (zip (map (\<lambda>i. dims (relabel da f dm r) ! i) axes) lag_x)
                   (relabel da f dm r)
            else Inr (relabel da f dm r)) (\<lambda>daft.
     Inr (transpose_xr
            (if true_amplitude kw
             then daft\<lparr>data := scale_nd (complex_of_real (prod_list delta_x)) (data daft)\<rparr>
             else daft)
            (swapped (snd (snd r)) rawdims)))))"

definition dft :: "detrend_fn \<Rightarrow> xarray \<Rightarrow> string list option \<Rightarrow> string option \<Rightarrow> kwargs \<Rightarrow> error + xarray" where
  "dft det da0 dm0 real_dim kw =
     bindE (resolve_dim da0 dm0 real_dim) (\<lambda>dm.
     bindE (if chunks_to_segments kw then stack_chunks da0 dm else Inr da0) (\<lambda>da1.
     bindE (mapE (get_axis_num (real_last da1 real_dim)) dm) (\<lambda>axis_num.
     bindE (mapE (dft_check (spacing_tol kw) (real_last da1 real_dim)) dm) (\<lambda>checks.
     bindE (if truthy (detrend kw) then det (real_last da1 real_dim) dm (the (detrend kw))
            else Inr (real_last da1 real_dim)) (\<lambda>da2.
     dft_finish real_dim kw (dims da1) dm
       (map (\<lambda>n. shape (data (real_last da1 real_dim)) ! n) axis_num)
       (map fst checks) (map snd checks)
       (if window kw then apply_window da2 dm else da2)
       (dft_kernel real_dim kw axis_num (data (if window kw then apply_window da2 dm else da2))))))))"

section \<open>The inverse transform\<close>

text \<open>\<open>daft.sortby(d)\<close>: the items and the coordinate of \<open>d\<close> in ascending (stable) order of the coordinate.\<close>

definition argsort :: "real list \<Rightarrow> nat list" where
  "argsort c = sort_key (\<lambda>i. c ! i) [0 ..< length c]"

definition sortby :: "xarray \<Rightarrow> string \<Rightarrow> xarray" where
  "sortby da d =
     (let c = coord da d; ax = index_of (dims da) d; perm = argsort c
      in da\<lparr>coords := (if coords da d = None then coords da
                         else (coords da)(d \<mapsto> map (\<lambda>i. c ! i) perm)),
             data := \<lparr>shape = shape (data da),
                      item = (\<lambda>idx. item (data da) (idx[ax := perm ! (idx ! ax)]))\<rparr>\<rparr>)"

text \<open>
  One round of the checking loop of \<open>idft\<close>: the array (sorted along \<open>d\<close> when its
  coordinate is evenly spaced only after sorting) and the spacing \<open>delta\<close>.
\<close>

definition idft_check :: "real \<Rightarrow> string option \<Rightarrow> xarray \<Rightarrow> string \<Rightarrow> error + xarray \<times> real" where
  "idft_check tol real_dim daft d =
     (let c = coord daft d; diff = diff_coord c
      in if diff = [] then Inl IndexError
         else
           let delta = \<bar>diff ! 0\<bar>;
               l = (if Some d \<noteq> real_dim then lag_coord c else c ! 0)
           in bindE
                (if \<not> np_allclose diff (diff ! 0) tol
                 then (let reordered_coord = map (\<lambda>i. c ! i) (argsort c);
                           diff' = diff_coord reordered_coord;
                           l' = lag_coord reordered_coord
                       in if np_allclose diff' (diff' ! 0) tol then Inr (sortby daft d, l')
                          else Inl (NonUniformSpacingError d))
                 else Inr (daft, l))
                (\<lambda>(daft', l). if \<bar>l\<bar> > tol then Inl (UncenteredSpectrumError d)
                              else if delta = 0 then Inl (DegenerateAxisError d)
                              else Inr (daft', delta)))"

fun idft_checks :: "real \<Rightarrow> string option \<Rightarrow> string list \<Rightarrow> xarray \<Rightarrow> error + xarray \<times> real list" where
  "idft_checks tol real_dim [] daft = Inr (daft, [])"
| "idft_checks tol real_dim (d # ds) daft =
     bindE (idft_check tol real_dim daft d) (\<lambda>(daft', delta).
     bindE (idft_checks tol real_dim ds daft') (\<lambda>(daft'', delta_x).
     Inr (daft'', delta # delta_x)))"

text \<open>The factor \<open>exp(1j * 2 pi * daft[d] * l)\<close> that an explicit \<open>lag\<close> puts on the input.\<close>

fun apply_lag :: "(string \<times> real) list \<Rightarrow> xarray \<Rightarrow> error + xarray" where
  "apply_lag [] daft = Inr daft"
| "apply_lag ((d, l) # rest) daft =
     (if d \<notin> set (dims daft) then Inl (KeyError d)
      else apply_lag rest
        (daft\<lparr>data := mul_along (index_of (dims daft) d)
                          (map (\<lambda>f. cis (2 * pi * f * l)) (coord daft d)) (data daft)\<rparr>))"

fun offset_coords :: "(string \<rightharpoonup> string) \<Rightarrow> (string \<times> real) list \<Rightarrow> xarray \<Rightarrow> error + xarray" where
  "offset_coords swap_dims [] da = Inr da"
| "offset_coords swap_dims ((d, l) # rest) da =
     (case swap_dims d of None \<Rightarrow> Inl (KeyError d)
      | Some tfd \<Rightarrow>
          if tfd \<notin> set (dims da) then Inl (KeyError tfd)
          else offset_coords swap_dims rest
                 (da\<lparr>coords := (coords da)(tfd \<mapsto> map (\<lambda>x. x + l) (coord da tfd))\<rparr>))"

definition spacing_of :: "xarray \<Rightarrow> string \<Rightarrow> error + real" where
  "spacing_of da d = (case spacing da d of None \<Rightarrow> Inl (AttributeError d) | Some s \<Rightarrow> Inr s)"

text \<open>
  The body of \<open>idft\<close>, split like that of \<open>dft\<close>. The kernel input is always rolled back
  by \<open>ifftshift\<close> along the axes other than the real one.
\<close>

definition idft_kernel :: "string option \<Rightarrow> kwargs \<Rightarrow> nat list \<Rightarrow> nat list \<Rightarrow> ndarray \<Rightarrow> ndarray" where
  "idft_kernel real_dim kw axis_num axis_shift a =
     (let fft_fn = (case real_dim of None \<Rightarrow> ifftn | Some r \<Rightarrow> irfftn);
          f0 = fft_fn axis_num (ifftshift_nd axis_shift a);
          f1 = (if \<not> true_phase kw then ifftshift_nd axis_num f0 else f0)
      in if shift kw then fftshift_nd axis_num f1 else f1)"

definition idft_finish ::
  "string option \<Rightarrow> kwargs \<Rightarrow> real list option \<Rightarrow> string list \<Rightarrow> string list \<Rightarrow> nat list \<Rightarrow> real list
     \<Rightarrow> xarray \<Rightarrow> ndarray \<Rightarrow> error + xarray" where
  "idft_finish real_dim kw lag rawdims dm N delta_x daft f =
     bindE (new_dims_and_coords dm (ifreq N delta_x real_dim (shift kw)) (prefix kw)) (\<lambda>r.
     bindE (case lag of None \<Rightarrow> Inr (relabel daft f dm r)
            | Some ls \<Rightarrow> offset_coords (snd (snd r)) (zip dm ls) (relabel daft f dm r)) (\<lambda>da1.
     bindE (if true_amplitude kw
            then bindE (mapE (\<lambda>d. spacing_of da1 (the (snd (snd r) d))) (remdups dm)) (\<lambda>ss.
                   Inr (da1\<lparr>data := scale_nd (complex_of_real (1 / prod_list ss)) (data da1)\<rparr>))
            else Inr da1) (\<lambda>da.
     Inr (transpose_xr da (swapped (snd (snd r)) rawdims)))))"

definition idft :: "xarray \<Rightarrow> string list option \<Rightarrow> string option \<Rightarrow> real list option \<Rightarrow> kwargs \<Rightarrow> error + xarray" where
  "idft daft0 dm0 real_dim lag kw =
     bindE (resolve_dim daft0 dm0 real_dim) (\<lambda>dm.
     bindE (case lag of None \<Rightarrow> Inr daft0
            | Some ls \<Rightarrow> if length dm \<noteq> length ls then Inl LagLengthError
                         else apply_lag (zip dm ls) daft0) (\<lambda>daft1.
     bindE (if chunks_to_segments kw then stack_chunks daft1 dm else Inr daft1) (\<lambda>daft2.
     bindE (mapE (get_axis_num (real_last daft2 real_dim)) dm) (\<lambda>axis_num.
     bindE (idft_checks (spacing_tol kw) real_dim dm (real_last daft2 real_dim)) (\<lambda>(daft3, delta_x).
     bindE (if truthy (detrend kw) then Inl NameError else Inr daft3) (\<lambda>daft4.
     bindE (mapE (get_axis_num (if window kw then apply_window daft4 dm else daft4))
                 (filter (\<lambda>d. Some d \<noteq> real_dim) dm)) (\<lambda>axis_shift.
     idft_finish real_dim kw lag (dims daft2) dm
       (map (\<lambda>n. shape (data (real_last daft2 real_dim)) ! n) axis_num) delta_x
       (if window kw then apply_window daft4 dm else daft4)
       (idft_kernel real_dim kw axis_num axis_shift
          (data (if window kw then apply_window daft4 dm else daft4))))))))))"

section \<open>The spectral product layer\<close>

fun starts_with :: "string \<Rightarrow> string \<Rightarrow> bool" where
  "starts_with [] s = True"
| "starts_with (c # p) [] = False"
| "starts_with (c # p) (x # s) = (c = x \<and> starts_with p s)"

text \<open>The substring test \<open>sub in s\<close>.\<close>

fun contains :: "string \<Rightarrow> string \<Rightarrow> bool" where
  "contains sub [] = (sub = [])"
| "contains sub (x # s) = (starts_with sub (x # s) \<or> contains sub s)"

definition map_data :: "(complex \<Rightarrow> complex) \<Rightarrow> xarray \<Rightarrow> xarray" where
  "map_data g da = da\<lparr>data := (data da)\<lparr>item := (\<lambda>idx. g (item (data da) idx))\<rparr>\<rparr>"

text \<open>The legacy \<open>density\<close> flag, when present, replaces the \<open>scaling\<close> argument.\<close>

definition effective_scaling :: "string \<Rightarrow> bool option \<Rightarrow> string" where
  "effective_scaling scaling density =
     (case density of None \<Rightarrow> scaling
      | Some b \<Rightarrow> if b then ''density'' else ''false_density'')"

definition apply_scaling :: "string \<Rightarrow> string list \<Rightarrow> xarray \<Rightarrow> error + xarray" where
  "apply_scaling scaling updated_dims ps =
     (if scaling = ''density''
      then bindE (mapE (spacing_of ps) updated_dims) (\<lambda>ss.
             Inr (map_data (\<lambda>z. z * complex_of_real (prod_list ss)) ps))
      else if scaling = ''spectrum''
      then bindE (mapE (spacing_of ps) updated_dims) (\<lambda>ss.
             Inr (map_data (\<lambda>z. z * complex_of_real ((prod_list ss)\<^sup>2)) ps))
      else if scaling = ''false_density'' then Inr ps
      else Inl (InvalidScalingError scaling))"

definition power_spectrum ::
  "detrend_fn \<Rightarrow> xarray \<Rightarrow> string list option \<Rightarrow> string option \<Rightarrow> string \<Rightarrow> bool option \<Rightarrow> kwargs \<Rightarrow> error + xarray" where
  "power_spectrum det da dm real_dim scaling0 density kw0 =
     (let scaling = effective_scaling scaling0 density;
          kw = kw0\<lparr>true_amplitude := True, true_phase := False\<rparr>
      in bindE (dft det da dm real_dim kw) (\<lambda>daft.
         let updated_dims = filter (\<lambda>d. d \<notin> set (dims da) \<and> \<not> contains ''segment'' d) (dims daft);
             ps0 = map_data (\<lambda>z. complex_of_real ((cmod z)\<^sup>2)) daft;
             ps = (if real_dim \<noteq> None then map_data (\<lambda>z. z * 2) ps0 else ps0)
         in apply_scaling scaling updated_dims ps))"

text \<open>
  The product of two labeled arrays with the same dimensions, after the documentation of
  \<open>xarray\<close>: along every dimension the operands are first aligned on the labels they share
  (an inner join; operands with equal labels are taken as they are), the items are
  multiplied position by position, and the coordinates and their attributes are those of
  the first operand where it has them.
\<close>

definition align_dim :: "real list option \<Rightarrow> nat \<Rightarrow> real list option \<Rightarrow> nat \<Rightarrow> string
    \<Rightarrow> error + (real list option \<times> nat list \<times> nat list)" where
  "align_dim c1 n1 c2 n2 d =
     (case (c1, c2) of
        (None, None) \<Rightarrow> if n1 = n2 then Inr (None, [0 ..< n1], [0 ..< n2]) else Inl (AlignmentError d)
      | (Some l1, None) \<Rightarrow> if n1 = n2 then Inr (Some l1, [0 ..< n1], [0 ..< n2]) else Inl (AlignmentError d)
      | (None, Some l2) \<Rightarrow> if n1 = n2 then Inr (Some l2, [0 ..< n1], [0 ..< n2]) else Inl (AlignmentError d)
      | (Some l1, Some l2) \<Rightarrow>
          if l1 = l2 then Inr (Some l1, [0 ..< n1], [0 ..< n2])
          else if \<not> distinct l1 \<or> \<not> distinct l2 then Inl (AlignmentError d)
          else let pos1 = filter (\<lambda>i. l1 ! i \<in> set l2) [0 ..< length l1]
               in Inr (Some (map (\<lambda>i. l1 ! i) pos1), pos1, map (\<lambda>i. index_of l2 (l1 ! i)) pos1))"

definition xr_mul :: "xarray \<Rightarrow> xarray \<Rightarrow> error + xarray" where
  "xr_mul a b =
     bindE (mapE (\<lambda>i. align_dim (coords a (dims a ! i)) (shape (data a) ! i)
                               (coords b (dims a ! i)) (shape (data b) ! i) (dims a ! i))
                 [0 ..< length (dims a)]) (\<lambda>al.
     Inr \<lparr>dims = dims a,
          coords = (\<lambda>d. if d \<in> set (dims a) then fst (al ! index_of (dims a) d)
                        else (coords b ++ coords a) d),
          spacing = spacing b ++ spacing a,
          data = \<lparr>shape = map (\<lambda>(c, p1, p2). length p1) al,
                  item = (\<lambda>idx. item (data a) (map (\<lambda>i. fst (snd (al ! i)) ! (idx ! i)) [0 ..< length idx])
                               * item (data b) (map (\<lambda>i. snd (snd (al ! i)) ! (idx ! i)) [0 ..< length idx]))\<rparr>\<rparr>)"

definition cross_spectrum ::
  "detrend_fn \<Rightarrow> xarray \<Rightarrow> xarray \<Rightarrow> string list option \<Rightarrow> string option \<Rightarrow> string \<Rightarrow> bool option \<Rightarrow> kwargs
     \<Rightarrow> error + xarray" where
  "cross_spectrum det da1 da2 dm real_dim scaling0 density kw0 =
     (let scaling = effective_scaling scaling0 density;
          kw = kw0\<lparr>true_amplitude := True\<rparr>
      in bindE (dft det da1 dm real_dim kw) (\<lambda>daft1.
         bindE (dft det da2 dm real_dim kw) (\<lambda>daft2.
         if dims daft1 \<noteq> dims daft2 then Inl MismatchedDimensionsError
         else
           let updated_dims = filter (\<lambda>d. d \<notin> set (dims da1) \<and> \<not> contains ''segment'' d) (dims daft1)
           in bindE (xr_mul daft1 (map_data cnj daft2)) (\<lambda>cs0.
              let cs = (if real_dim \<noteq> None then map_data (\<lambda>z. z * 2) cs0 else cs0)
              in apply_scaling scaling updated_dims cs))))"


section \<open>The isotropic averaging layer\<close>

text \<open>
  The collaborators of \<open>_groupby_bins_agg\<close>, after their documentation.
  \<open>numpy.linspace(a, b, num)\<close>: \<open>num\<close> evenly spaced samples from \<open>a\<close> to \<open>b\<close>.
  \<open>pandas.cut(x, bins)\<close> with a number of bins: the edges are \<open>linspace(min, max, bins + 1)\<close>
  with the first edge lowered by 0.1 percent of the range (both ends moved outwards when
  the range is a single point); the bins are closed on the right, and the code of a
  value is the number of edges strictly below it (\<open>searchsorted\<close> on the left), less one;
  a value outside every bin has no code.
  \<open>numpy_groupies.aggregate(codes, a, func="mean", size, fill_value=0)\<close>: the mean of the
  items of each code, \<open>0\<close> for a code without items.
\<close>

definition linspace :: "real \<Rightarrow> real \<Rightarrow> nat \<Rightarrow> real list" where
  "linspace a b num = map (\<lambda>i. a + real i * ((b - a) / real (num - 1))) [0 ..< num]"

definition list_min :: "real list \<Rightarrow> real" where
  "list_min x = fold min (tl x) (hd x)"

definition list_max :: "real list \<Rightarrow> real" where
  "list_max x = fold max (tl x) (hd x)"

definition cut_edges :: "real list \<Rightarrow> nat \<Rightarrow> real list" where
  "cut_edges x bins =
     (let mn = list_min x; mx = list_max x
      in if mn = mx
         then linspace (mn - (if mn \<noteq> 0 then \<bar>mn\<bar> / 1000 else 1 / 1000))
                       (mx + (if mx \<noteq> 0 then \<bar>mx\<bar> / 1000 else 1 / 1000)) (bins + 1)
         else (let e = linspace mn mx (bins + 1) in e[0 := e ! 0 - (mx - mn) / 1000]))"

definition cut_code :: "real list \<Rightarrow> real \<Rightarrow> nat option" where
  "cut_code edges v =
     (let ids = length (filter (\<lambda>e. e < v) edges)
      in if ids = 0 \<or> ids = length edges then None else Some (ids - 1))"

definition pd_cut :: "real list \<Rightarrow> nat \<Rightarrow> error + nat option list" where
  "pd_cut x bins =
     (if bins < 1 then Inl BinsError
      else if x = [] then Inl BinsError
      else Inr (map (cut_code (cut_edges x bins)) x))"

definition members :: "'a list \<Rightarrow> nat list \<Rightarrow> nat \<Rightarrow> 'a list" where
  "members a codes b = map fst (filter (\<lambda>(v, c). c = b) (zip a codes))"

definition mean :: "complex list \<Rightarrow> complex" where
  "mean vs = (if vs = [] then 0 else sum_list vs / of_nat (length vs))"

definition binned_agg :: "complex list \<Rightarrow> nat list \<Rightarrow> nat \<Rightarrow> complex list" where
  "binned_agg a codes num_bins = map (\<lambda>b. mean (members a codes b)) [0 ..< num_bins]"

text \<open>
  \<open>isotropize\<close>. The cells of the radial-frequency array are listed in the order of its
  dimensions \<open>(fftdim[1], fftdim[0])\<close>; the dimensions of \<open>ps\<close> other than these two are
  kept in front of the new dimension \<open>freq_r\<close>.
\<close>

definition cells :: "string \<Rightarrow> string \<Rightarrow> nat \<Rightarrow> nat \<Rightarrow> (nat \<times> nat) list" where
  "cells d1 d0 n1 n0 =
     (if d1 = d0 then map (\<lambda>i. (i, i)) [0 ..< n1]
      else concat (map (\<lambda>i. map (\<lambda>j. (i, j)) [0 ..< n0]) [0 ..< n1]))"

definition cell_index :: "xarray \<Rightarrow> string \<Rightarrow> string \<Rightarrow> string list \<Rightarrow> nat list \<Rightarrow> nat \<times> nat \<Rightarrow> nat list" where
  "cell_index ps d1 d0 others rest c =
     map (\<lambda>d. if d = d1 then fst c else if d = d0 then snd c else rest ! index_of others d) (dims ps)"

definition isotropize :: "xarray \<Rightarrow> string list \<Rightarrow> nat \<Rightarrow> error + xarray" where
  "isotropize ps fftdim nfactor =
     (if length fftdim < 2 then Inl IndexError
      else
        let d1 = fftdim ! 1; d0 = fftdim ! 0
        in if d1 \<notin> set (dims ps) then Inl (KeyError d1)
           else if d0 \<notin> set (dims ps) then Inl (KeyError d0)
           else
             let k = coord ps d1; l = coord ps d0
             in if nfactor = 0 then Inl ZeroDivisionError
                else
                  let nbins = min (length k) (length l) div nfactor;
                      cs = cells d1 d0 (length k) (length l);
                      freq_r = map (\<lambda>(i, j). sqrt ((k ! i)\<^sup>2 + (l ! j)\<^sup>2)) cs
                  in bindE (pd_cut freq_r nbins) (\<lambda>codes0.
                     if None \<in> set codes0 then Inl BinsError
                     else
                       let codes = map the codes0;
                           kr = binned_agg (map complex_of_real freq_r) codes nbins;
                           others = filter (\<lambda>d. d \<noteq> d1 \<and> d \<noteq> d0) (dims ps);
                           iso = (\<lambda>idx. binned_agg
                                    (map (\<lambda>c. item (data ps) (cell_index ps d1 d0 others (butlast idx) c)) cs)
                                    codes nbins ! last idx)
                       in Inr \<lparr>dims = others @ [''freq_r''],
                               coords = (coords ps |` set others)(''freq_r'' \<mapsto> map Re kr),
                               spacing = spacing ps |` set others,
                               data = \<lparr>shape = map (\<lambda>d. shape (data ps) ! index_of (dims ps) d) others @ [nbins],
                                       item = (\<lambda>idx. iso idx * kr ! last idx)\<rparr>\<rparr>))"

definition isotropic_power_spectrum ::
  "detrend_fn \<Rightarrow> xarray \<Rightarrow> real \<Rightarrow> string list option \<Rightarrow> bool \<Rightarrow> string option \<Rightarrow> bool \<Rightarrow> bool \<Rightarrow> nat
     \<Rightarrow> error + xarray" where
  "isotropic_power_spectrum det da tol dm0 shft detr density win nfactor =
     (let dm = (case dm0 of None \<Rightarrow> dims da | Some ds \<Rightarrow> ds)
      in if length dm \<noteq> 2 then Inl InvalidDimensionError
         else bindE (power_spectrum det da (Some dm) None ''density'' (Some density)
                      (defaults\<lparr>spacing_tol := tol, shift := shft, detrend := detr, window := win\<rparr>))
                (\<lambda>ps. isotropize ps (map (\<lambda>d. ''freq_'' @ d) dm) nfactor))"


section \<open>Example inputs\<close>

text \<open>
  Concrete arrays and a concrete detrending function, used where a statement is
  evaluated on an input.
\<close>

definition no_detrend :: detrend_fn where
  "no_detrend da dm detrend_type = Inr da"

definition line :: "string \<Rightarrow> real list \<Rightarrow> complex list \<Rightarrow> xarray" where
  "line d c v = \<lparr>dims = [d], coords = [d \<mapsto> c], spacing = Map.empty,
     data = \<lparr>shape = [length c], item = (\<lambda>idx. v ! (idx ! 0))\<rparr>\<rparr>"

definition grid :: "string \<Rightarrow> real list \<Rightarrow> string \<Rightarrow> real list \<Rightarrow> (nat \<Rightarrow> nat \<Rightarrow> complex) \<Rightarrow> xarray" where
  "grid d0 c0 d1 c1 v = \<lparr>dims = [d0, d1], coords = [d0 \<mapsto> c0, d1 \<mapsto> c1], spacing = Map.empty,
     data = \<lparr>shape = [length c0, length c1], item = (\<lambda>idx. v (idx ! 0) (idx ! 1))\<rparr>\<rparr>"

section \<open>Predicates of the statements\<close>

text \<open>
  The spacing test of the transforms on a coordinate vector \<open>c\<close>: every consecutive
  difference is within \<open>1e-8 + tol * |c[1] - c[0]|\<close> of the first one.
\<close>

definition evenly_spaced :: "real \<Rightarrow> real list \<Rightarrow> bool" where
  "evenly_spaced tol c =
     list_all (\<lambda>i. \<bar>(c ! Suc i - c ! i) - (c ! 1 - c ! 0)\<bar> \<le> 1 / 10 ^ 8 + tol * \<bar>c ! 1 - c ! 0\<bar>)
       [0 ..< length c - 1]"


text \<open>
  The test as the specification words it:
  \<open>max(|diff_i - diff_0|) <= spacing_tolerance * |diff_0|\<close>.
\<close>

definition spec_uniformity_test :: "real \<Rightarrow> real list \<Rightarrow> bool" where
  "spec_uniformity_test tol c =
     (list_max (map (\<lambda>x. \<bar>x - np_diff c ! 0\<bar>) (np_diff c)) \<le> tol * \<bar>np_diff c ! 0\<bar>)"

text \<open>
  The coordinate in ascending order, as the checking loop of \<open>idft\<close> computes it, and
  the value that the loop compares with the tolerance: the midpoint of the coordinate,
  the first value of the real axis, the midpoint of the sorted coordinate when the
  coordinate is evenly spaced only after sorting.
\<close>

definition ascending :: "real list \<Rightarrow> real list" where
  "ascending c = map (\<lambda>i. c ! i) (argsort c)"

definition centre_ok :: "real \<Rightarrow> string option \<Rightarrow> string \<Rightarrow> real list \<Rightarrow> bool" where
  "centre_ok tol rd d c =
     (if evenly_spaced tol c then \<bar>if Some d \<noteq> rd then lag_coord c else c ! 0\<bar> \<le> tol
      else \<bar>lag_coord (ascending c)\<bar> \<le> tol)"


text \<open>The centring test as the specification words it: always on the midpoint.\<close>

definition spec_centre_ok :: "real \<Rightarrow> real list \<Rightarrow> bool" where
  "spec_centre_ok tol c =
     (if evenly_spaced tol c then \<bar>lag_coord c\<bar> \<le> tol else \<bar>lag_coord (ascending c)\<bar> \<le> tol)"

text \<open>
  The spacing attributes of the frequency axes of a transform \<open>daft\<close> of \<open>da\<close> along \<open>dm\<close>,
  and what it means for a result to be the squared magnitude of \<open>daft\<close>, doubled when
  there is a real axis, times a factor \<open>c\<close>.
\<close>

definition frequency_spacings :: "xarray \<Rightarrow> string list \<Rightarrow> string \<Rightarrow> xarray \<Rightarrow> real list" where
  "frequency_spacings da dm p daft =
     map (\<lambda>d. the (spacing daft (new_name p d))) (filter (\<lambda>d. d \<in> set dm) (dims da))"

definition power_scaled_by :: "real \<Rightarrow> string option \<Rightarrow> xarray \<Rightarrow> error + xarray \<Rightarrow> bool" where
  "power_scaled_by c rd daft res =
     (case res of Inl e \<Rightarrow> False
      | Inr ps \<Rightarrow> dims ps = dims daft \<and> coords ps = coords daft
          \<and> shape (data ps) = shape (data daft)
          \<and> (\<forall>idx. item (data ps) idx
                = complex_of_real ((cmod (item (data daft) idx))\<^sup>2 * (if rd = None then 1 else 2) * c)))"

text \<open>
  Two arrays carry the same labels when they have the same dimensions, the same shape
  and the same coordinate along every dimension: their product needs no alignment.
  A result is the product of \<open>A\<close> with the conjugate of \<open>B\<close>, doubled when there is a
  real axis, times a factor \<open>c\<close>; one array is the pointwise conjugate of another.
\<close>

definition same_labels :: "xarray \<Rightarrow> xarray \<Rightarrow> bool" where
  "same_labels A B =
     (dims A = dims B \<and> shape (data A) = shape (data B)
      \<and> list_all (\<lambda>d. coords A d = coords B d) (dims A))"

definition cross_scaled_by :: "real \<Rightarrow> string option \<Rightarrow> xarray \<Rightarrow> xarray \<Rightarrow> error + xarray \<Rightarrow> bool" where
  "cross_scaled_by c rd A B res =
     (case res of Inl e \<Rightarrow> False
      | Inr cs \<Rightarrow> dims cs = dims A \<and> shape (data cs) = shape (data A)
          \<and> (\<forall>idx. valid_index (shape (data A)) idx \<longrightarrow>
                item (data cs) idx
                  = item (data A) idx * cnj (item (data B) idx)
                    * complex_of_real ((if rd = None then 1 else 2) * c)))"

definition conjugate_of :: "xarray \<Rightarrow> xarray \<Rightarrow> bool" where
  "conjugate_of r1 r2 =
     (dims r1 = dims r2 \<and> shape (data r1) = shape (data r2)
      \<and> (\<forall>idx. valid_index (shape (data r1)) idx \<longrightarrow> item (data r1) idx = cnj (item (data r2) idx)))"

text \<open>Two constant lines of different lengths on the same dimension.\<close>

definition ones2 :: xarray where
  "ones2 = line ''x'' [-1, 0] [1, 1]"

definition ones4 :: xarray where
  "ones4 = line ''x'' [-2, -1, 0, 1] [1, 1, 1, 1]"

text \<open>
  The statement about \<open>isotropize\<close>: the cells \<open>(i, j)\<close> of a two-dimensional spectrum,
  their radial frequency, the bins of equal width that divide the range of the radial
  frequencies (the range is widened by 0.1 percent on both sides when it is a single
  point; a bin is closed on the right and the first one holds the lower end too), and
  the cells whose radial frequency lies in a bin.
\<close>

definition two_dimensional :: "xarray \<Rightarrow> string list \<Rightarrow> bool" where
  "two_dimensional ps fftdim =
     (2 \<le> length fftdim \<and> fftdim ! 0 \<noteq> fftdim ! 1
      \<and> (dims ps = [fftdim ! 0, fftdim ! 1] \<or> dims ps = [fftdim ! 1, fftdim ! 0]))"

definition radial :: "xarray \<Rightarrow> string list \<Rightarrow> nat \<times> nat \<Rightarrow> real" where
  "radial ps fftdim c =
     sqrt ((coord ps (fftdim ! 1) ! fst c)\<^sup>2 + (coord ps (fftdim ! 0) ! snd c)\<^sup>2)"

definition grid_cells :: "xarray \<Rightarrow> string list \<Rightarrow> (nat \<times> nat) list" where
  "grid_cells ps fftdim =
     List.product [0 ..< length (coord ps (fftdim ! 1))] [0 ..< length (coord ps (fftdim ! 0))]"

definition radii :: "xarray \<Rightarrow> string list \<Rightarrow> real list" where
  "radii ps fftdim = map (radial ps fftdim) (grid_cells ps fftdim)"

definition n_bins :: "xarray \<Rightarrow> string list \<Rightarrow> nat \<Rightarrow> nat" where
  "n_bins ps fftdim nfactor =
     min (length (coord ps (fftdim ! 1))) (length (coord ps (fftdim ! 0))) div nfactor"

definition bin_range :: "real list \<Rightarrow> real \<times> real" where
  "bin_range x =
     (if Min (set x) = Max (set x)
      then (Min (set x) - (if Min (set x) \<noteq> 0 then \<bar>Min (set x)\<bar> / 1000 else 1 / 1000),
            Max (set x) + (if Max (set x) \<noteq> 0 then \<bar>Max (set x)\<bar> / 1000 else 1 / 1000))
      else (Min (set x), Max (set x)))"

definition bin_edge :: "real list \<Rightarrow> nat \<Rightarrow> nat \<Rightarrow> real" where
  "bin_edge x n i = fst (bin_range x) + real i * ((snd (bin_range x) - fst (bin_range x)) / real n)"

definition in_bin :: "real list \<Rightarrow> nat \<Rightarrow> nat \<Rightarrow> real \<Rightarrow> bool" where
  "in_bin x n b v =
     ((bin_edge x n b < v \<or> (b = 0 \<and> v = fst (bin_range x))) \<and> v \<le> bin_edge x n (Suc b))"

definition bin_cells :: "xarray \<Rightarrow> string list \<Rightarrow> nat \<Rightarrow> nat \<Rightarrow> (nat \<times> nat) list" where
  "bin_cells ps fftdim nfactor b =
     filter (\<lambda>c. in_bin (radii ps fftdim) (n_bins ps fftdim nfactor) b (radial ps fftdim c))
       (grid_cells ps fftdim)"

definition spectrum_at :: "xarray \<Rightarrow> string list \<Rightarrow> nat \<times> nat \<Rightarrow> complex" where
  "spectrum_at ps fftdim c =
     item (data ps) (map (\<lambda>d. if d = fftdim ! 1 then fst c else snd c) (dims ps))"

definition spectrum64 :: xarray where
  "spectrum64 = grid ''freq_y'' (map real [0 ..< 64]) ''freq_x'' (map real [0 ..< 64]) (\<lambda>i j. 1)"

definition spectrum4 :: xarray where
  "spectrum4 = grid ''freq_y'' [0, 4] ''freq_x'' [0, 3] (\<lambda>i j. 1 + of_nat i + 2 * of_nat j)"

text \<open>The code that \<open>pandas.cut\<close> gives the radial frequency of a cell.\<close>

definition bin_of :: "xarray \<Rightarrow> string list \<Rightarrow> nat \<Rightarrow> nat \<times> nat \<Rightarrow> nat option" where
  "bin_of ps fftdim nfactor c =
     cut_code (cut_edges (radii ps fftdim) (n_bins ps fftdim nfactor)) (radial ps fftdim c)"

text \<open>
  The statement about a forward transform with a real axis \<open>r\<close>. The frequencies of a
  transformed dimension in the order of the kernel: \<open>rfftfreq\<close> for the real axis and
  \<open>fftfreq\<close> for the others, of the length of the axis and the spacing of its
  coordinate. The items of the result: the output of \<open>rfftn\<close> on the array \<open>prep\<close> that
  comes out of the detrending step (windowed and rolled back by \<open>ifftshift\<close> as the
  options ask), with no roll after the kernel, times the phase and amplitude factors,
  the axes put back in the order of the input.
\<close>

definition kernel_order :: "xarray \<Rightarrow> string \<Rightarrow> string \<Rightarrow> real list" where
  "kernel_order da r d =
     (if d = r then rfftfreq else fftfreq)
       (shape (data da) ! index_of (dims da) d) \<bar>coord da d ! 1 - coord da d ! 0\<bar>"

definition real_transform :: "kwargs \<Rightarrow> xarray \<Rightarrow> string \<Rightarrow> string list \<Rightarrow> xarray \<Rightarrow> ndarray" where
  "real_transform kw da r dm prep =
     (let last_dims = filter (\<lambda>d. d \<noteq> r) (dims da) @ [r];
          axes = map (index_of last_dims) dm;
          w = data (if window kw then apply_window prep dm else prep);
          X = rfftn axes (if true_phase kw then ifftshift_nd axes w else w);
          P = (if true_phase kw
               then fold (\<lambda>d. mul_along (index_of last_dims d)
                                 (phase_ramp (kernel_order da r d) (lag_coord (coord da d)))) dm X
               else X);
          A = (if true_amplitude kw
               then scale_nd (complex_of_real (prod_list (map (\<lambda>d. \<bar>coord da d ! 1 - coord da d ! 0\<bar>) dm))) P
               else P)
      in transpose_nd (map (index_of last_dims) (dims da)) A)"

section \<open>Basic facts\<close>

lemma new_dims_loop_swap:
  "new_dims_loop w p ds (nc, ats, sw) = Inr (nc', ats', sw') \<Longrightarrow>
     sw' d = (if d \<in> set ds then Some (new_name p d) else sw d)"
proof (induction ds arbitrary: nc ats sw)
  case Nil
  then show ?case by simp
next
  case (Cons x xs)
  then show ?case
    by (auto split: option.splits if_splits)
qed

lemma new_dims_and_coords_swap:
  "new_dims_and_coords dm k p = Inr r \<Longrightarrow>
     snd (snd r) d = (if d \<in> set dm then Some (new_name p d) else None)"
  unfolding new_dims_and_coords_def
  using new_dims_loop_swap[of _ p dm Map.empty Map.empty Map.empty "fst r" "fst (snd r)" "snd (snd r)" d]
  by simp

lemma bindE_Inr_iff: "bindE m f = Inr y \<longleftrightarrow> (\<exists>x. m = Inr x \<and> f x = Inr y)"
  by (cases m) (simp_all add: bindE_def)

lemma bindE_Inl_iff: "bindE m f = Inl e \<longleftrightarrow> (m = Inl e \<or> (\<exists>x. m = Inr x \<and> f x = Inl e))"
  by (cases m) (simp_all add: bindE_def)

lemma dims_transpose_xr [simp]: "dims (transpose_xr da names) = names"
  by (simp add: transpose_xr_def)

lemma stack_chunks_dims: "stack_chunks da dm = Inr da' \<Longrightarrow> dims da' = dims da"
  by (auto simp: stack_chunks_def split: if_splits)

lemma dft_finish_dims:
  assumes "dft_finish rd kw rawdims dm N dx lx da f = Inr r"
  shows "dims r = map (\<lambda>d. if d \<in> set dm then new_name (prefix kw) d else d) rawdims"
proof -
  from assms obtain rl X where c: "new_dims_and_coords dm (freq N dx rd (forced_shift rd kw)) (prefix kw) = Inr rl"
    and d: "r = transpose_xr X (swapped (snd (snd rl)) rawdims)"
    unfolding dft_finish_def bindE_Inr_iff by blast
  show ?thesis using d new_dims_and_coords_swap[OF c] by (simp add: swapped_def)
qed

lemma idft_finish_dims:
  assumes "idft_finish rd kw lag rawdims dm N dx da f = Inr r"
  shows "dims r = map (\<lambda>d. if d \<in> set dm then new_name (prefix kw) d else d) rawdims"
proof -
  from assms obtain rl X where c: "new_dims_and_coords dm (ifreq N dx rd (shift kw)) (prefix kw) = Inr rl"
    and d: "r = transpose_xr X (swapped (snd (snd rl)) rawdims)"
    unfolding idft_finish_def bindE_Inr_iff by blast
  show ?thesis using d new_dims_and_coords_swap[OF c] by (simp add: swapped_def)
qed

lemma apply_lag_dims: "apply_lag zs da = Inr da' \<Longrightarrow> dims da' = dims da"
  by (induction zs arbitrary: da) (auto split: if_splits)

lemma dft_dims:
  assumes "dft det da dm0 rd kw = Inr r" and "resolve_dim da dm0 rd = Inr dm"
  shows "dims r = map (\<lambda>d. if d \<in> set dm then new_name (prefix kw) d else d) (dims da)"
proof -
  from assms obtain da1 N dx lx X f where
      b: "(if chunks_to_segments kw then stack_chunks da dm else Inr da) = Inr da1"
      and c: "dft_finish rd kw (dims da1) dm N dx lx X f = Inr r"
    unfolding dft_def bindE_Inr_iff by auto
  from b have "dims da1 = dims da" by (auto split: if_splits dest: stack_chunks_dims)
  then show ?thesis using dft_finish_dims[OF c] by simp
qed

lemma idft_dims:
  assumes "idft da dm0 rd lag kw = Inr r" and "resolve_dim da dm0 rd = Inr dm"
  shows "dims r = map (\<lambda>d. if d \<in> set dm then new_name (prefix kw) d else d) (dims da)"
proof -
  from assms obtain da1 da2 N dx X f where
      l: "(case lag of None \<Rightarrow> Inr da
            | Some ls \<Rightarrow> if length dm \<noteq> length ls then Inl LagLengthError
                         else apply_lag (zip dm ls) da) = Inr da1"
      and b: "(if chunks_to_segments kw then stack_chunks da1 dm else Inr da1) = Inr da2"
      and c: "idft_finish rd kw lag (dims da2) dm N dx X f = Inr r"
    unfolding idft_def by (auto simp: bindE_Inr_iff)
  from l have "dims da1 = dims da" by (auto split: option.splits if_splits dest: apply_lag_dims)
  moreover from b have "dims da2 = dims da1" by (auto split: if_splits dest: stack_chunks_dims)
  ultimately show ?thesis using idft_finish_dims[OF c] by simp
qed

lemma new_name_prefixed: "take (length p) d = p \<Longrightarrow> new_name p d = drop (length p) d"
  by (simp add: new_name_def)

lemma new_name_twice:
  "new_name p (new_name p d) = d \<longleftrightarrow> (p = [] \<or> take (2 * length p) d \<noteq> p @ p)"
proof (cases "take (length p) d = p")
  case False
  have "take (2 * length p) d \<noteq> p @ p"
  proof
    assume "take (2 * length p) d = p @ p"
    then have "take (length p) (take (2 * length p) d) = take (length p) (p @ p)" by simp
    then have "take (length p) d = p" by (simp add: min_def)
    with False show False by simp
  qed
  with False show ?thesis by (simp add: new_name_def)
next
  case True
  define r where "r = drop (length p) d"
  have d: "d = p @ r" using True r_def by (metis append_take_drop_id)
  have nn: "new_name p d = r" using True r_def by (simp add: new_name_def)
  have t2: "take (2 * length p) d = p @ take (length p) r" using d by simp
  show ?thesis
  proof (cases "take (length p) r = p")
    case False
    then show ?thesis using nn t2 d by (simp add: new_name_def)
  next
    case tr: True
    have "new_name p r = drop (length p) r" using tr by (simp add: new_name_def)
    moreover have "drop (length p) r = d \<longleftrightarrow> p = []"
    proof
      assume "drop (length p) r = d"
      then have "length (drop (length p) r) = length d" by simp
      then have "length r - length p = length p + length r" using d by simp
      then have "length p = 0" by arith
      then show "p = []" by simp
    next
      assume "p = []" then show "drop (length p) r = d" using d by simp
    qed
    ultimately show ?thesis using nn t2 tr by simp
  qed
qed



section \<open>Evaluation on concrete inputs\<close>

lemmas eval_defs = dft_def dft_finish_def dft_kernel_def forced_shift_def idft_def idft_finish_def
  idft_kernel_def idft_check_def resolve_dim_def real_last_def get_axis_num_def dft_check_def
  coord_def diff_coord_def lag_coord_def np_diff_def np_allclose_def np_atol_def truthy_def
  freq_def ifreq_def new_dims_and_coords_def fftfreq_def rfftfreq_def fftshift_def ifftshift_def
  bindE_def defaults_def no_detrend_def line_def relabel_def swapped_def new_name_def spacing_of_def
  transpose_xr_def transpose_nd_def grid_def Let_def

lemma ex1: "\<exists>r. dft no_detrend (line ''x'' [-2, -1, 0, 1] v) None None defaults = Inr r"
  by (simp add: eval_defs)

lemma ex2: "\<exists>r. idft (line ''freq_x'' [-1/2, -1/4, 0, 1/4] v) None None None defaults = Inr r"
  by (simp add: eval_defs)


section \<open>C10: the renaming of transformed dimensions\<close>

text \<open>
  Claim C10, as amended. A transformed dimension whose name begins with the prefix
  is renamed by removing the prefix; applying the renaming twice with the same prefix
  gives back the original name exactly when the prefix is empty or the name does not
  begin with two copies of the prefix; \<open>dft\<close> and \<open>idft\<close> both name the dimensions of
  their result by this renaming on the transformed dimensions and leave the other
  names as they are.
\<close>

theorem renaming_toggle:
  "(take (length p) d = p \<longrightarrow> new_name p d = drop (length p) d)
   \<and> (new_name p (new_name p d) = d \<longleftrightarrow> (p = [] \<or> take (2 * length p) d \<noteq> p @ p))
   \<and> (resolve_dim da dm0 rd = Inr dm \<and> dft det da dm0 rd kw = Inr r
        \<longrightarrow> dims r = map (\<lambda>d. if d \<in> set dm then new_name (prefix kw) d else d) (dims da))
   \<and> (resolve_dim da' dm0' rd' = Inr dm' \<and> idft da' dm0' rd' lag kw' = Inr r'
        \<longrightarrow> dims r' = map (\<lambda>d. if d \<in> set dm' then new_name (prefix kw') d else d) (dims da'))"
  using new_name_prefixed[of p d] new_name_twice[of p d] dft_dims[of det da dm0 rd kw r dm]
    idft_dims[of da' dm0' rd' lag kw' r' dm']
  by blast


text \<open>The theorem at the prefix \<open>freq_\<close>, a four-point line and its spectrum.\<close>

theorem renaming_toggle_witness:
  "take (length ''freq_'') ''freq_x'' = ''freq_'' \<and> new_name ''freq_'' ''freq_x'' = ''x''
   \<and> new_name ''freq_'' (new_name ''freq_'' ''freq_x'') = ''freq_x''
   \<and> resolve_dim (line ''x'' [-2, -1, 0, 1] [1, 2, 3, 4]) None None = Inr [''x'']
   \<and> (\<exists>r. dft no_detrend (line ''x'' [-2, -1, 0, 1] [1, 2, 3, 4]) None None defaults = Inr r
          \<and> dims r = [''freq_x''])
   \<and> resolve_dim (line ''freq_x'' [-1/2, -1/4, 0, 1/4] [1, 2, 3, 4]) None None = Inr [''freq_x'']
   \<and> (\<exists>r. idft (line ''freq_x'' [-1/2, -1/4, 0, 1/4] [1, 2, 3, 4]) None None None defaults = Inr r
          \<and> dims r = [''x''])"
proof -
  obtain r where r: "dft no_detrend (line ''x'' [-2, -1, 0, 1] [1, 2, 3, 4]) None None defaults = Inr r"
    using ex1 by blast
  obtain r' where r': "idft (line ''freq_x'' [-1/2, -1/4, 0, 1/4] [1, 2, 3, 4]) None None None defaults = Inr r'"
    using ex2 by blast
  have a: "resolve_dim (line ''x'' [-2, -1, 0, 1] [1, 2, 3, 4]) None None = Inr [''x'']"
    by (simp add: resolve_dim_def line_def)
  have b: "resolve_dim (line ''freq_x'' [-1/2, -1/4, 0, 1/4] [1, 2, 3, 4]) None None = Inr [''freq_x'']"
    by (simp add: resolve_dim_def line_def)
  have p: "take (length ''freq_'') ''freq_x'' = ''freq_''" by simp
  from renaming_toggle[of "''freq_''" "''freq_x''" "line ''x'' [-2, -1, 0, 1] [1, 2, 3, 4]" None None
      "[''x'']" no_detrend defaults r "line ''freq_x'' [-1/2, -1/4, 0, 1/4] [1, 2, 3, 4]" None None
      "[''freq_x'']" None defaults r'] a b r r' p
  show ?thesis
    by (simp add: line_def defaults_def new_name_def)
qed


text \<open>
  Claim C10 as stated says that the renaming is an involution. On a name that begins
  with two copies of the prefix it is not: two applications remove both copies.
\<close>

theorem renaming_toggle_counterexample:
  "new_name ''freq_'' (new_name ''freq_'' ''freq_freq_x'') = ''x''"
  by (simp add: new_name_def)



section \<open>C9: the flags that the power spectrum overrides\<close>

text \<open>
  Claim C9. \<open>power_spectrum\<close> runs the forward transform with \<open>true_phase = False\<close> and
  \<open>true_amplitude = True\<close> whatever the caller passes for the two flags: its result is
  the same for every value of them, and it is the post-processing of the transform
  taken with the two flags set that way.
\<close>

theorem power_spectrum_flags:
  "power_spectrum det da dm rd sc dens (kw\<lparr>true_phase := tp, true_amplitude := ta\<rparr>)
     = power_spectrum det da dm rd sc dens (kw\<lparr>true_phase := False, true_amplitude := True\<rparr>)
   \<and> power_spectrum det da dm rd sc dens (kw\<lparr>true_phase := tp, true_amplitude := ta\<rparr>)
     = power_spectrum det da dm rd sc dens kw
   \<and> power_spectrum det da dm rd sc dens kw
     = bindE (dft det da dm rd (kw\<lparr>true_amplitude := True, true_phase := False\<rparr>))
         (\<lambda>daft. apply_scaling (effective_scaling sc dens)
             (filter (\<lambda>d. d \<notin> set (dims da) \<and> \<not> contains ''segment'' d) (dims daft))
             (if rd \<noteq> None
              then map_data (\<lambda>z. z * 2) (map_data (\<lambda>z. complex_of_real ((cmod z)\<^sup>2)) daft)
              else map_data (\<lambda>z. complex_of_real ((cmod z)\<^sup>2)) daft))"
proof (intro conjI)
  show "power_spectrum det da dm rd sc dens (kw\<lparr>true_phase := tp, true_amplitude := ta\<rparr>)
     = power_spectrum det da dm rd sc dens (kw\<lparr>true_phase := False, true_amplitude := True\<rparr>)"
    by (simp add: power_spectrum_def)
  show "power_spectrum det da dm rd sc dens (kw\<lparr>true_phase := tp, true_amplitude := ta\<rparr>)
     = power_spectrum det da dm rd sc dens kw"
    by (simp add: power_spectrum_def)
  show "power_spectrum det da dm rd sc dens kw
     = bindE (dft det da dm rd (kw\<lparr>true_amplitude := True, true_phase := False\<rparr>))
         (\<lambda>daft. apply_scaling (effective_scaling sc dens)
             (filter (\<lambda>d. d \<notin> set (dims da) \<and> \<not> contains ''segment'' d) (dims daft))
             (if rd \<noteq> None
              then map_data (\<lambda>z. z * 2) (map_data (\<lambda>z. complex_of_real ((cmod z)\<^sup>2)) daft)
              else map_data (\<lambda>z. complex_of_real ((cmod z)\<^sup>2)) daft))"
    by (simp only: power_spectrum_def Let_def)
qed


section \<open>The spacing checks of the forward transform\<close>

lemma mapE_Inr_iff: "mapE f xs = Inr ys \<longleftrightarrow> list_all2 (\<lambda>x y. f x = Inr y) xs ys"
proof (induction xs arbitrary: ys)
  case Nil
  then show ?case by auto
next
  case (Cons x xs)
  then show ?case by (cases ys) (auto simp: bindE_Inr_iff)
qed

lemma mapE_Inr_all: "mapE f xs = Inr ys \<Longrightarrow> x \<in> set xs \<Longrightarrow> \<exists>y. f x = Inr y"
  by (auto simp: mapE_Inr_iff list_all2_conv_all_nth in_set_conv_nth)

lemma mapE_first_error:
  "\<forall>x \<in> set pre. \<exists>y. f x = Inr y \<Longrightarrow> f d = Inl e \<Longrightarrow> mapE f (pre @ d # post) = Inl e"
  by (induction pre) (auto simp: bindE_def)

lemma mapE_total: "\<forall>x \<in> set xs. \<exists>y. f x = Inr y \<Longrightarrow> \<exists>ys. mapE f xs = Inr ys"
  by (induction xs) (auto simp: bindE_def)

lemma mapE_cong: "(\<And>x. x \<in> set xs \<Longrightarrow> f x = g x) \<Longrightarrow> mapE f xs = mapE g xs"
  by (induction xs) (auto simp: bindE_def)

lemma dft_check_NonUniform_iff:
  "dft_check tol da d = Inl (NonUniformSpacingError d') \<longleftrightarrow>
     d' = d \<and> 2 \<le> length (coord da d) \<and> \<not> evenly_spaced tol (coord da d)"
  by (auto simp: dft_check_def Let_def diff_coord_def np_diff_def np_allclose_def np_atol_def
      evenly_spaced_def list_all_iff)

lemma dft_check_Inr_evenly:
  "dft_check tol da d = Inr v \<Longrightarrow> 2 \<le> length (coord da d) \<and> evenly_spaced tol (coord da d)"
  by (auto simp: dft_check_def Let_def diff_coord_def np_diff_def np_allclose_def np_atol_def
      evenly_spaced_def list_all_iff split: if_splits)


lemma index_of_less: "d \<in> set xs \<Longrightarrow> index_of xs d < length xs"
  by (induction xs) auto

lemma nth_index_of: "d \<in> set xs \<Longrightarrow> xs ! index_of xs d = d"
  by (induction xs) auto

lemma coord_transpose_xr:
  "d \<in> set names \<Longrightarrow> coord (transpose_xr da names) d = coord da d"
  by (simp add: coord_def transpose_xr_def transpose_nd_def index_of_less nth_index_of
      split: option.splits)

lemma real_last_set_dims:
  "(\<forall>r. rd = Some r \<longrightarrow> r \<in> set (dims da)) \<Longrightarrow> set (dims (real_last da rd)) = set (dims da)"
  by (cases rd) (auto simp: real_last_def)

lemma coord_real_last:
  "(\<forall>r. rd = Some r \<longrightarrow> r \<in> set (dims da)) \<Longrightarrow> d \<in> set (dims da) \<Longrightarrow>
     coord (real_last da rd) d = coord da d"
  by (cases rd) (auto simp: real_last_def coord_transpose_xr)

lemma coord_stack_chunks:
  "stack_chunks da dm = Inr da1 \<Longrightarrow> d \<in> set (dims da) \<Longrightarrow> coord da1 d = coord da d"
  by (auto simp: stack_chunks_def coord_def split: if_splits)

lemma resolve_dim_real: "resolve_dim da dm0 rd = Inr dm \<Longrightarrow> rd = Some r \<Longrightarrow> r \<in> set (dims da)"
  by (auto simp: resolve_dim_def Let_def split: if_splits)

lemma dft_check_coord: "coord da d = coord da' d \<Longrightarrow> dft_check tol da d = dft_check tol da' d"
  by (simp add: dft_check_def)

lemma get_axis_num_Inr: "get_axis_num da d = Inr n \<Longrightarrow> d \<in> set (dims da)"
  by (auto simp: get_axis_num_def split: if_splits)

lemma dft_Inr_checks:
  assumes "dft det da dm0 rd kw = Inr r" and "resolve_dim da dm0 rd = Inr dm" and "d \<in> set dm"
  shows "\<exists>v. dft_check (spacing_tol kw) da d = Inr v"
proof -
  from assms(1,2) obtain da1 axis_num checks where
      b: "(if chunks_to_segments kw then stack_chunks da dm else Inr da) = Inr da1"
      and ax: "mapE (get_axis_num (real_last da1 rd)) dm = Inr axis_num"
      and ch: "mapE (dft_check (spacing_tol kw) (real_last da1 rd)) dm = Inr checks"
    unfolding dft_def by (auto simp: bindE_Inr_iff)
  have d1: "dims da1 = dims da" using b by (auto split: if_splits dest: stack_chunks_dims)
  have rr: "\<forall>r. rd = Some r \<longrightarrow> r \<in> set (dims da1)"
    using resolve_dim_real[OF assms(2)] d1 by simp
  from mapE_Inr_all[OF ax assms(3)] have "d \<in> set (dims (real_last da1 rd))"
    by (auto dest: get_axis_num_Inr)
  then have dd: "d \<in> set (dims da)" using real_last_set_dims[OF rr] d1 by simp
  have "coord da1 d = coord da d" using b dd by (auto split: if_splits dest: coord_stack_chunks)
  then have "coord (real_last da1 rd) d = coord da d"
    using coord_real_last[OF rr, of d] dd d1 by simp
  then have "dft_check (spacing_tol kw) (real_last da1 rd) d = dft_check (spacing_tol kw) da d"
    by (rule dft_check_coord)
  then show ?thesis using mapE_Inr_all[OF ch assms(3)] by simp
qed

lemma dft_first_check_error:
  assumes "resolve_dim da dm0 rd = Inr (pre @ d # post)" and "\<not> chunks_to_segments kw"
    and "set (pre @ d # post) \<subseteq> set (dims da)"
    and "\<forall>x \<in> set pre. \<exists>v. dft_check (spacing_tol kw) da x = Inr v"
    and "dft_check (spacing_tol kw) da d = Inl e"
  shows "dft det da dm0 rd kw = Inl e"
proof -
  let ?dm = "pre @ d # post"
  have rr: "\<forall>r. rd = Some r \<longrightarrow> r \<in> set (dims da)"
    using resolve_dim_real[OF assms(1)] by simp
  have eq: "\<And>x. x \<in> set ?dm \<Longrightarrow> dft_check (spacing_tol kw) (real_last da rd) x = dft_check (spacing_tol kw) da x"
    using coord_real_last[OF rr] assms(3) by (intro dft_check_coord) auto
  have "\<forall>x \<in> set ?dm. \<exists>n. get_axis_num (real_last da rd) x = Inr n"
    using assms(3) real_last_set_dims[OF rr] by (auto simp: get_axis_num_def)
  then obtain axis_num where ax: "mapE (get_axis_num (real_last da rd)) ?dm = Inr axis_num"
    using mapE_total by blast
  have "mapE (dft_check (spacing_tol kw) (real_last da rd)) ?dm = mapE (dft_check (spacing_tol kw) da) ?dm"
    using eq by (rule mapE_cong)
  also have "\<dots> = Inl e" using assms(4,5) by (rule mapE_first_error)
  finally show ?thesis using assms(1,2) ax by (simp add: dft_def bindE_def)
qed


section \<open>C4: the uniformity test\<close>

text \<open>
  Claim C4, as amended. A transform along an axis with the coordinate \<open>[0, 1, 2, 5]\<close>
  raises the non-uniform-spacing error at the tolerance \<open>1e-3\<close> and returns a result at
  the tolerance \<open>2\<close>. In general the test accepts a coordinate exactly when every
  consecutive difference satisfies \<open>|diff_i - diff_0| \<le> 1e-8 + tol * |diff_0|\<close>: a
  transform that returns has passed it on every transformed axis, and the first axis
  that fails it, after axes that pass all their checks, makes the transform raise the
  error for that axis.
\<close>

theorem dft_spacing_test:
  "dft det (line ''x'' [0, 1, 2, 5] v) None None (defaults\<lparr>spacing_tol := 1 / 1000\<rparr>)
      = Inl (NonUniformSpacingError ''x'')
   \<and> (\<exists>r. dft det (line ''x'' [0, 1, 2, 5] v) None None (defaults\<lparr>spacing_tol := 2\<rparr>) = Inr r)
   \<and> (dft_check tol da d = Inl (NonUniformSpacingError d)
        \<longleftrightarrow> 2 \<le> length (coord da d) \<and> \<not> evenly_spaced tol (coord da d))
   \<and> (resolve_dim da1 dm0 rd = Inr dm \<and> dft det1 da1 dm0 rd kw = Inr r1 \<and> d1 \<in> set dm
        \<longrightarrow> evenly_spaced (spacing_tol kw) (coord da1 d1))
   \<and> (resolve_dim da2 dm2 rd2 = Inr (pre @ d2 # post) \<and> \<not> chunks_to_segments kw2
        \<and> set (pre @ d2 # post) \<subseteq> set (dims da2)
        \<and> (\<forall>y \<in> set pre. \<exists>u. dft_check (spacing_tol kw2) da2 y = Inr u)
        \<and> 2 \<le> length (coord da2 d2) \<and> \<not> evenly_spaced (spacing_tol kw2) (coord da2 d2)
        \<longrightarrow> dft det2 da2 dm2 rd2 kw2 = Inl (NonUniformSpacingError d2))"
proof (intro conjI impI)
  show "dft det (line ''x'' [0, 1, 2, 5] v) None None (defaults\<lparr>spacing_tol := 1 / 1000\<rparr>)
      = Inl (NonUniformSpacingError ''x'')"
    by (simp add: eval_defs)
  show "\<exists>r. dft det (line ''x'' [0, 1, 2, 5] v) None None (defaults\<lparr>spacing_tol := 2\<rparr>) = Inr r"
    by (simp add: eval_defs)
  show "dft_check tol da d = Inl (NonUniformSpacingError d)
        \<longleftrightarrow> 2 \<le> length (coord da d) \<and> \<not> evenly_spaced tol (coord da d)"
    by (simp add: dft_check_NonUniform_iff)
next
  assume a: "resolve_dim da1 dm0 rd = Inr dm \<and> dft det1 da1 dm0 rd kw = Inr r1 \<and> d1 \<in> set dm"
  then obtain u where "dft_check (spacing_tol kw) da1 d1 = Inr u"
    using dft_Inr_checks[of det1 da1 dm0 rd kw r1 dm d1] by blast
  then show "evenly_spaced (spacing_tol kw) (coord da1 d1)"
    using dft_check_Inr_evenly by blast
next
  assume a: "resolve_dim da2 dm2 rd2 = Inr (pre @ d2 # post) \<and> \<not> chunks_to_segments kw2
        \<and> set (pre @ d2 # post) \<subseteq> set (dims da2)
        \<and> (\<forall>y \<in> set pre. \<exists>u. dft_check (spacing_tol kw2) da2 y = Inr u)
        \<and> 2 \<le> length (coord da2 d2) \<and> \<not> evenly_spaced (spacing_tol kw2) (coord da2 d2)"
  then have "dft_check (spacing_tol kw2) da2 d2 = Inl (NonUniformSpacingError d2)"
    by (simp add: dft_check_NonUniform_iff)
  with a show "dft det2 da2 dm2 rd2 kw2 = Inl (NonUniformSpacingError d2)"
    using dft_first_check_error[of da2 dm2 rd2 pre d2 post kw2 "NonUniformSpacingError d2" det2]
    by blast
qed


text \<open>The theorem on the two four-point lines \<open>[0, 1, 2, 5]\<close> and \<open>[-2, -1, 0, 1]\<close>.\<close>

theorem dft_spacing_test_witness:
  "2 \<le> length (coord (line ''x'' [0, 1, 2, 5] [1, 2, 3, 4]) ''x'')
   \<and> \<not> evenly_spaced (1 / 1000) (coord (line ''x'' [0, 1, 2, 5] [1, 2, 3, 4]) ''x'')
   \<and> dft_check (1 / 1000) (line ''x'' [0, 1, 2, 5] [1, 2, 3, 4]) ''x'' = Inl (NonUniformSpacingError ''x'')
   \<and> resolve_dim (line ''x'' [-2, -1, 0, 1] [1, 2, 3, 4]) None None = Inr [''x'']
   \<and> (\<exists>r. dft no_detrend (line ''x'' [-2, -1, 0, 1] [1, 2, 3, 4]) None None defaults = Inr r)
   \<and> evenly_spaced (spacing_tol defaults) (coord (line ''x'' [-2, -1, 0, 1] [1, 2, 3, 4]) ''x'')
   \<and> resolve_dim (line ''x'' [0, 1, 2, 5] [1, 2, 3, 4]) None None = Inr ([] @ ''x'' # [])
   \<and> \<not> chunks_to_segments defaults
   \<and> \<not> evenly_spaced (spacing_tol defaults) (coord (line ''x'' [0, 1, 2, 5] [1, 2, 3, 4]) ''x'')
   \<and> dft no_detrend (line ''x'' [0, 1, 2, 5] [1, 2, 3, 4]) None None defaults = Inl (NonUniformSpacingError ''x'')"
proof -
  obtain r where r: "dft no_detrend (line ''x'' [-2, -1, 0, 1] [1, 2, 3, 4]) None None defaults = Inr r"
    using ex1 by blast
  have h1: "2 \<le> length (coord (line ''x'' [0, 1, 2, 5] [1, 2, 3, 4]) ''x'')"
    by (simp add: coord_def line_def)
  have h2: "\<not> evenly_spaced (1 / 1000) (coord (line ''x'' [0, 1, 2, 5] [1, 2, 3, 4]) ''x'')"
    by (simp add: coord_def line_def evenly_spaced_def)
  have h3: "resolve_dim (line ''x'' [-2, -1, 0, 1] [1, 2, 3, 4]) None None = Inr [''x'']"
    by (simp add: resolve_dim_def line_def)
  have h4: "resolve_dim (line ''x'' [0, 1, 2, 5] [1, 2, 3, 4]) None None = Inr ([] @ ''x'' # [])"
    by (simp add: resolve_dim_def line_def)
  have h5: "\<not> chunks_to_segments defaults"
    by (simp add: defaults_def)
  have h6: "set ([] @ ''x'' # []) \<subseteq> set (dims (line ''x'' [0, 1, 2, 5] [1, 2, 3, 4]))"
    by (simp add: line_def)
  from dft_spacing_test[where tol = "1 / 1000" and da = "line ''x'' [0, 1, 2, 5] [1, 2, 3, 4]"
      and d = "''x''" and ?da1.0 = "line ''x'' [-2, -1, 0, 1] [1, 2, 3, 4]" and ?dm0.0 = None and rd = None
      and dm = "[''x'']" and ?det1.0 = no_detrend and kw = defaults and ?r1.0 = r and ?d1.0 = "''x''"
      and ?da2.0 = "line ''x'' [0, 1, 2, 5] [1, 2, 3, 4]" and ?dm2.0 = None and ?rd2.0 = None
      and pre = "[]" and ?d2.0 = "''x''" and post = "[]" and ?kw2.0 = defaults and ?det2.0 = no_detrend]
    h1 h2 h3 h4 h5 h6 r
  show ?thesis by (simp add: defaults_def)
qed


text \<open>
  Claim C4 as stated has no absolute term in the test. The coordinate
  \<open>[0, 1e-9, 3e-9]\<close> passes the test of the code at the default tolerance, although its
  second step is twice its first, so that the test of the specification rejects it.
\<close>

theorem dft_spacing_test_counterexample:
  "\<not> isl (dft no_detrend (line ''x'' [0, 1 / 10 ^ 9, 3 / 10 ^ 9] [1, 2, 3]) None None defaults)
   \<and> \<not> spec_uniformity_test (spacing_tol defaults) [0, 1 / 10 ^ 9, 3 / 10 ^ 9]"
  by (simp add: eval_defs spec_uniformity_test_def list_max_def)

section \<open>The checking loop of the inverse transform\<close>

lemma np_allclose_evenly:
  "2 \<le> length c \<Longrightarrow> np_allclose (diff_coord c) (diff_coord c ! 0) tol = evenly_spaced tol c"
  by (auto simp: diff_coord_def np_diff_def np_allclose_def np_atol_def evenly_spaced_def list_all_iff)

lemma diff_coord_Nil: "diff_coord c = [] \<longleftrightarrow> length c < 2"
  by (auto simp: diff_coord_def np_diff_def)

lemma length_ascending [simp]: "length (ascending c) = length c"
  by (simp add: ascending_def argsort_def)

text \<open>The outcome of one round of the checking loop, from the coordinate alone.\<close>

lemma idft_check_cases:
  "idft_check tol rd daft d =
     (let c = coord daft d in
      if length c < 2 then Inl IndexError
      else if \<not> evenly_spaced tol c \<and> \<not> evenly_spaced tol (ascending c) then Inl (NonUniformSpacingError d)
      else if \<not> centre_ok tol rd d c then Inl (UncenteredSpectrumError d)
      else if \<bar>c ! 1 - c ! 0\<bar> = 0 then Inl (DegenerateAxisError d)
      else Inr (if evenly_spaced tol c then daft else sortby daft d, \<bar>c ! 1 - c ! 0\<bar>))"
proof (cases "length (coord daft d) < 2")
  case True
  then show ?thesis by (simp add: idft_check_def Let_def diff_coord_Nil)
next
  case False
  define c where "c = coord daft d"
  have l: "2 \<le> length c" "2 \<le> length (ascending c)" using False c_def by simp_all
  have d0: "diff_coord c ! 0 = c ! 1 - c ! 0"
    using l by (simp add: diff_coord_def np_diff_def)
  have ne: "diff_coord c \<noteq> []" using l by (simp add: diff_coord_Nil)
  have a1: "np_allclose (diff_coord c) (diff_coord c ! 0) tol = evenly_spaced tol c"
    using l(1) by (rule np_allclose_evenly)
  have a2: "np_allclose (diff_coord (ascending c)) (diff_coord (ascending c) ! 0) tol
      = evenly_spaced tol (ascending c)"
    using l(2) by (rule np_allclose_evenly)
  have unf: "idft_check tol rd daft d =
      bindE (if \<not> evenly_spaced tol c
             then (if evenly_spaced tol (ascending c) then Inr (sortby daft d, lag_coord (ascending c))
                   else Inl (NonUniformSpacingError d))
             else Inr (daft, if Some d \<noteq> rd then lag_coord c else c ! 0))
        (\<lambda>(daft', l). if \<bar>l\<bar> > tol then Inl (UncenteredSpectrumError d)
                      else if \<bar>diff_coord c ! 0\<bar> = 0 then Inl (DegenerateAxisError d)
                      else Inr (daft', \<bar>diff_coord c ! 0\<bar>))"
    unfolding idft_check_def Let_def c_def[symmetric] ascending_def[symmetric] a1 a2
    using ne by simp
  show ?thesis
    unfolding unf Let_def c_def[symmetric] d0
    using False c_def
    by (auto simp: bindE_def centre_ok_def)
qed


lemma dims_sortby [simp]: "dims (sortby da d) = dims da"
  by (simp add: sortby_def Let_def)

lemma coord_sortby_other: "d' \<noteq> d \<Longrightarrow> coord (sortby da d) d' = coord da d'"
  by (auto simp: sortby_def Let_def coord_def split: option.splits)

lemma idft_check_coord_Inl:
  "coord da d = coord da' d \<Longrightarrow> idft_check tol rd da d = Inl e \<longleftrightarrow> idft_check tol rd da' d = Inl e"
  by (simp add: idft_check_cases Let_def)

lemma idft_check_coord_Inr:
  "coord da d = coord da' d \<Longrightarrow>
     (\<exists>v. idft_check tol rd da d = Inr v) \<longleftrightarrow> (\<exists>v. idft_check tol rd da' d = Inr v)"
  by (simp add: idft_check_cases Let_def)

lemma idft_check_Inr_result:
  "idft_check tol rd da d = Inr (da', delta) \<Longrightarrow>
     dims da' = dims da \<and> (\<forall>d'. d' \<noteq> d \<longrightarrow> coord da' d' = coord da d')"
  by (auto simp: idft_check_cases Let_def coord_sortby_other split: if_splits)

lemma idft_checks_Inr:
  "idft_checks tol rd ds da = Inr (da', deltas) \<Longrightarrow> distinct ds \<Longrightarrow> d \<in> set ds \<Longrightarrow>
     \<exists>v. idft_check tol rd da d = Inr v"
proof (induction ds arbitrary: da da' deltas)
  case Nil
  then show ?case by simp
next
  case (Cons x xs)
  from Cons.prems(1) obtain da1 delta ds' where
      c: "idft_check tol rd da x = Inr (da1, delta)"
      and r: "idft_checks tol rd xs da1 = Inr (da', ds')"
    by (auto simp: bindE_Inr_iff)
  show ?case
  proof (cases "d = x")
    case True
    then show ?thesis using c by blast
  next
    case False
    then have "d \<in> set xs" using Cons.prems(3) by simp
    then have "\<exists>v. idft_check tol rd da1 d = Inr v"
      using Cons.IH[OF r] Cons.prems(2) by simp
    moreover have "coord da1 d = coord da d"
      using idft_check_Inr_result[OF c] False by simp
    ultimately show ?thesis using idft_check_coord_Inr by blast
  qed
qed

lemma idft_checks_first_error:
  "distinct (pre @ d # post) \<Longrightarrow> \<forall>y \<in> set pre. \<exists>v. idft_check tol rd da y = Inr v \<Longrightarrow>
     idft_check tol rd da d = Inl e \<Longrightarrow> idft_checks tol rd (pre @ d # post) da = Inl e"
proof (induction pre arbitrary: da)
  case Nil
  then show ?case by (simp add: bindE_def)
next
  case (Cons x xs)
  from Cons.prems(2) obtain da1 delta where c: "idft_check tol rd da x = Inr (da1, delta)"
    by fastforce
  have co: "\<And>y. y \<noteq> x \<Longrightarrow> coord da1 y = coord da y"
    using idft_check_Inr_result[OF c] by simp
  have "\<forall>y \<in> set xs. \<exists>v. idft_check tol rd da1 y = Inr v"
  proof
    fix y assume y: "y \<in> set xs"
    then have "y \<noteq> x" using Cons.prems(1) by auto
    then show "\<exists>v. idft_check tol rd da1 y = Inr v"
      using idft_check_coord_Inr[OF co, of y tol rd] Cons.prems(2) y by simp
  qed
  moreover have "idft_check tol rd da1 d = Inl e"
  proof -
    have "d \<noteq> x" using Cons.prems(1) by auto
    then show ?thesis using idft_check_coord_Inl[OF co, of d tol rd e] Cons.prems(3) by simp
  qed
  ultimately have "idft_checks tol rd (xs @ d # post) da1 = Inl e"
    using Cons.IH Cons.prems(1) by simp
  then show ?case using c by (simp add: bindE_def)
qed

lemma apply_lag_coord: "apply_lag zs da = Inr da' \<Longrightarrow> coord da' d = coord da d"
proof (induction zs arbitrary: da)
  case Nil
  then show ?case by simp
next
  case (Cons z zs)
  obtain x l where z: "z = (x, l)" by (cases z)
  from Cons.prems z have x: "x \<in> set (dims da)" by (auto split: if_splits)
  then have "coord da' d = coord (da\<lparr>data := mul_along (index_of (dims da) x)
       (map (\<lambda>f. cis (2 * pi * f * l)) (coord da x)) (data da)\<rparr>) d"
    using Cons.prems z by (intro Cons.IH) simp
  then show ?case by (auto simp: coord_def mul_along_def split: option.splits)
qed

lemma apply_lag_total:
  "set (map fst zs) \<subseteq> set (dims da) \<Longrightarrow> \<exists>da'. apply_lag zs da = Inr da'"
  by (induction zs arbitrary: da) auto

lemma idft_check_coord_eq:
  "coord da d = coord da' d \<Longrightarrow> (\<exists>v. idft_check tol rd da d = Inr v) \<Longrightarrow> \<exists>v. idft_check tol rd da' d = Inr v"
  using idft_check_coord_Inr by blast

lemma idft_Inr_checks:
  assumes "idft da dm0 rd lag kw = Inr r" and "resolve_dim da dm0 rd = Inr dm"
    and "distinct dm" and "d \<in> set dm"
  shows "\<exists>v. idft_check (spacing_tol kw) rd da d = Inr v"
proof -
  from assms(1,2) obtain da1 da2 axis_num da3 deltas where
      l: "(case lag of None \<Rightarrow> Inr da
            | Some ls \<Rightarrow> if length dm \<noteq> length ls then Inl LagLengthError
                         else apply_lag (zip dm ls) da) = Inr da1"
      and b: "(if chunks_to_segments kw then stack_chunks da1 dm else Inr da1) = Inr da2"
      and ax: "mapE (get_axis_num (real_last da2 rd)) dm = Inr axis_num"
      and ch: "idft_checks (spacing_tol kw) rd dm (real_last da2 rd) = Inr (da3, deltas)"
    unfolding idft_def by (auto simp: bindE_Inr_iff)
  have d0: "dims da1 = dims da" using l by (auto split: option.splits if_splits dest: apply_lag_dims)
  have c0: "coord da1 d = coord da d" using l by (auto split: option.splits if_splits dest: apply_lag_coord)
  have d1: "dims da2 = dims da1" using b by (auto split: if_splits dest: stack_chunks_dims)
  have rr: "\<forall>r. rd = Some r \<longrightarrow> r \<in> set (dims da2)"
    using resolve_dim_real[OF assms(2)] d0 d1 by simp
  from mapE_Inr_all[OF ax assms(4)] have "d \<in> set (dims (real_last da2 rd))"
    by (auto dest: get_axis_num_Inr)
  then have dd: "d \<in> set (dims da1)" using real_last_set_dims[OF rr] d1 by simp
  have "coord da2 d = coord da1 d" using b dd by (auto split: if_splits dest: coord_stack_chunks)
  then have "coord (real_last da2 rd) d = coord da d"
    using coord_real_last[OF rr, of d] dd d1 c0 by simp
  then show ?thesis using idft_checks_Inr[OF ch assms(3,4)] idft_check_coord_eq by blast
qed

lemma idft_first_check_error:
  assumes "resolve_dim da dm0 rd = Inr (pre @ d # post)" and "\<not> chunks_to_segments kw"
    and "\<forall>ls. lag = Some ls \<longrightarrow> length ls = length (pre @ d # post)"
    and "set (pre @ d # post) \<subseteq> set (dims da)" and "distinct (pre @ d # post)"
    and "\<forall>x \<in> set pre. \<exists>v. idft_check (spacing_tol kw) rd da x = Inr v"
    and "idft_check (spacing_tol kw) rd da d = Inl e"
  shows "idft da dm0 rd lag kw = Inl e"
proof -
  let ?dm = "pre @ d # post"
  obtain da1 where l: "(case lag of None \<Rightarrow> Inr da
            | Some ls \<Rightarrow> if length ?dm \<noteq> length ls then Inl LagLengthError
                         else apply_lag (zip ?dm ls) da) = Inr da1"
  proof (cases lag)
    case None
    then show ?thesis using that by simp
  next
    case (Some ls)
    then have len: "length ls = length ?dm" using assms(3) by simp
    have "set (map fst (zip ?dm ls)) \<subseteq> set (dims da)"
      using assms(4) len by (simp add: map_fst_zip)
    then obtain da' where "apply_lag (zip ?dm ls) da = Inr da'" using apply_lag_total by blast
    then show ?thesis using that Some len by simp
  qed
  have d0: "dims da1 = dims da" using l by (auto split: option.splits if_splits dest: apply_lag_dims)
  have c0: "\<And>x. coord da1 x = coord da x"
    using l by (auto split: option.splits if_splits dest: apply_lag_coord)
  have rr: "\<forall>r. rd = Some r \<longrightarrow> r \<in> set (dims da1)"
    using resolve_dim_real[OF assms(1)] d0 by simp
  have co: "\<And>x. x \<in> set ?dm \<Longrightarrow> coord (real_last da1 rd) x = coord da x"
    using coord_real_last[OF rr] assms(4) d0 c0 by auto
  have "\<forall>x \<in> set ?dm. \<exists>n. get_axis_num (real_last da1 rd) x = Inr n"
    using assms(4) real_last_set_dims[OF rr] d0 by (auto simp: get_axis_num_def)
  then obtain axis_num where ax: "mapE (get_axis_num (real_last da1 rd)) ?dm = Inr axis_num"
    using mapE_total by blast
  have p: "\<forall>x \<in> set pre. \<exists>v. idft_check (spacing_tol kw) rd (real_last da1 rd) x = Inr v"
  proof
    fix x assume x: "x \<in> set pre"
    then have "coord da x = coord (real_last da1 rd) x" using co by simp
    then show "\<exists>v. idft_check (spacing_tol kw) rd (real_last da1 rd) x = Inr v"
      using idft_check_coord_eq assms(6) x by blast
  qed
  have "coord (real_last da1 rd) d = coord da d" using co by simp
  then have e: "idft_check (spacing_tol kw) rd (real_last da1 rd) d = Inl e"
    using idft_check_coord_Inl assms(7) by blast
  have "idft_checks (spacing_tol kw) rd ?dm (real_last da1 rd) = Inl e"
    using assms(5) p e by (rule idft_checks_first_error)
  then show ?thesis using assms(1,2) l ax by (simp add: idft_def bindE_def)
qed


section \<open>C6: the centring check of the inverse transform\<close>

text \<open>
  Claim C6, as amended. In the checking loop of \<open>idft\<close> an axis with at least two
  coordinate values that is evenly spaced, as given or after sorting, raises the
  uncentered-spectrum error exactly when the checked value exceeds the tolerance in
  absolute value; the checked value is the midpoint of the coordinate for an axis
  other than the real one, the first coordinate value for the real axis, and the
  midpoint of the sorted coordinate for an axis that was sorted. An inverse transform
  that returns has passed the check on every transformed axis, and the first axis
  that fails it, after axes that pass all their checks, makes the call return that
  error and no array.
\<close>

theorem idft_centring_check:
  "(idft_check tol rd da d = Inl (UncenteredSpectrumError d)
      \<longleftrightarrow> 2 \<le> length (coord da d)
          \<and> (evenly_spaced tol (coord da d) \<or> evenly_spaced tol (ascending (coord da d)))
          \<and> \<not> centre_ok tol rd d (coord da d))
   \<and> (resolve_dim da1 dm0 rd1 = Inr dm \<and> distinct dm \<and> idft da1 dm0 rd1 lag kw = Inr r \<and> d1 \<in> set dm
        \<longrightarrow> centre_ok (spacing_tol kw) rd1 d1 (coord da1 d1))
   \<and> (resolve_dim da2 dm2 rd2 = Inr (pre @ d2 # post) \<and> \<not> chunks_to_segments kw2
        \<and> (\<forall>ls. lag2 = Some ls \<longrightarrow> length ls = length (pre @ d2 # post))
        \<and> set (pre @ d2 # post) \<subseteq> set (dims da2) \<and> distinct (pre @ d2 # post)
        \<and> (\<forall>y \<in> set pre. \<exists>u. idft_check (spacing_tol kw2) rd2 da2 y = Inr u)
        \<and> 2 \<le> length (coord da2 d2)
        \<and> (evenly_spaced (spacing_tol kw2) (coord da2 d2)
             \<or> evenly_spaced (spacing_tol kw2) (ascending (coord da2 d2)))
        \<and> \<not> centre_ok (spacing_tol kw2) rd2 d2 (coord da2 d2)
        \<longrightarrow> idft da2 dm2 rd2 lag2 kw2 = Inl (UncenteredSpectrumError d2))"
proof (intro conjI impI)
  show a: "\<And>tol rd da d. idft_check tol rd da d = Inl (UncenteredSpectrumError d)
      \<longleftrightarrow> 2 \<le> length (coord da d)
          \<and> (evenly_spaced tol (coord da d) \<or> evenly_spaced tol (ascending (coord da d)))
          \<and> \<not> centre_ok tol rd d (coord da d)"
    by (auto simp: idft_check_cases Let_def)
  {
    assume h: "resolve_dim da1 dm0 rd1 = Inr dm \<and> distinct dm \<and> idft da1 dm0 rd1 lag kw = Inr r \<and> d1 \<in> set dm"
    then obtain u where "idft_check (spacing_tol kw) rd1 da1 d1 = Inr u"
      using idft_Inr_checks[of da1 dm0 rd1 lag kw r dm d1] by blast
    then show "centre_ok (spacing_tol kw) rd1 d1 (coord da1 d1)"
      by (auto simp: idft_check_cases Let_def split: if_splits)
  }
  {
    assume h: "resolve_dim da2 dm2 rd2 = Inr (pre @ d2 # post) \<and> \<not> chunks_to_segments kw2
        \<and> (\<forall>ls. lag2 = Some ls \<longrightarrow> length ls = length (pre @ d2 # post))
        \<and> set (pre @ d2 # post) \<subseteq> set (dims da2) \<and> distinct (pre @ d2 # post)
        \<and> (\<forall>y \<in> set pre. \<exists>u. idft_check (spacing_tol kw2) rd2 da2 y = Inr u)
        \<and> 2 \<le> length (coord da2 d2)
        \<and> (evenly_spaced (spacing_tol kw2) (coord da2 d2)
             \<or> evenly_spaced (spacing_tol kw2) (ascending (coord da2 d2)))
        \<and> \<not> centre_ok (spacing_tol kw2) rd2 d2 (coord da2 d2)"
    then have "idft_check (spacing_tol kw2) rd2 da2 d2 = Inl (UncenteredSpectrumError d2)"
      using a by blast
    with h show "idft da2 dm2 rd2 lag2 kw2 = Inl (UncenteredSpectrumError d2)"
      using idft_first_check_error[of da2 dm2 rd2 pre d2 post kw2 lag2 "UncenteredSpectrumError d2"]
      by blast
  }
qed


text \<open>
  The theorem on two four-point spectra: \<open>[0, 1/4, 1/2, 3/4]\<close>, whose midpoint is
  \<open>1/2\<close>, and \<open>[-1/2, -1/4, 0, 1/4]\<close>, whose midpoint is \<open>0\<close>.
\<close>

theorem idft_centring_check_witness:
  "2 \<le> length (coord (line ''freq_x'' [0, 1/4, 1/2, 3/4] [1, 2, 3, 4]) ''freq_x'')
   \<and> evenly_spaced (1 / 1000) (coord (line ''freq_x'' [0, 1/4, 1/2, 3/4] [1, 2, 3, 4]) ''freq_x'')
   \<and> \<not> centre_ok (1 / 1000) None ''freq_x'' (coord (line ''freq_x'' [0, 1/4, 1/2, 3/4] [1, 2, 3, 4]) ''freq_x'')
   \<and> idft_check (1 / 1000) None (line ''freq_x'' [0, 1/4, 1/2, 3/4] [1, 2, 3, 4]) ''freq_x''
        = Inl (UncenteredSpectrumError ''freq_x'')
   \<and> resolve_dim (line ''freq_x'' [-1/2, -1/4, 0, 1/4] [1, 2, 3, 4]) None None = Inr [''freq_x'']
   \<and> (\<exists>r. idft (line ''freq_x'' [-1/2, -1/4, 0, 1/4] [1, 2, 3, 4]) None None None defaults = Inr r)
   \<and> centre_ok (1 / 1000) None ''freq_x'' (coord (line ''freq_x'' [-1/2, -1/4, 0, 1/4] [1, 2, 3, 4]) ''freq_x'')
   \<and> resolve_dim (line ''freq_x'' [0, 1/4, 1/2, 3/4] [1, 2, 3, 4]) None None = Inr ([] @ ''freq_x'' # [])
   \<and> idft (line ''freq_x'' [0, 1/4, 1/2, 3/4] [1, 2, 3, 4]) None None None defaults
        = Inl (UncenteredSpectrumError ''freq_x'')"
proof -
  let ?bad = "line ''freq_x'' [0, 1/4, 1/2, 3/4] [1, 2, 3, 4]"
  let ?good = "line ''freq_x'' [-1/2, -1/4, 0, 1/4] [1, 2, 3, 4]"
  obtain r where r: "idft ?good None None None defaults = Inr r"
    using ex2 by blast
  have h1: "2 \<le> length (coord ?bad ''freq_x'')"
    by (simp add: coord_def line_def)
  have h2: "evenly_spaced (1 / 1000) (coord ?bad ''freq_x'')"
    by (simp add: coord_def line_def evenly_spaced_def)
  have h3: "\<not> centre_ok (1 / 1000) None ''freq_x'' (coord ?bad ''freq_x'')"
    using h2 by (simp add: centre_ok_def) (simp add: coord_def line_def lag_coord_def)
  have h4: "resolve_dim ?good None None = Inr [''freq_x'']"
    by (simp add: resolve_dim_def line_def)
  have h5: "resolve_dim ?bad None None = Inr ([] @ ''freq_x'' # [])"
    by (simp add: resolve_dim_def line_def)
  have h6: "\<not> chunks_to_segments defaults" "spacing_tol defaults = 1 / 1000"
    by (simp_all add: defaults_def)
  have h7: "set ([] @ ''freq_x'' # []) \<subseteq> set (dims ?bad)"
    by (simp add: line_def)
  note t = idft_centring_check[where tol = "1 / 1000" and rd = None and da = ?bad
      and d = "''freq_x''" and ?da1.0 = ?good and ?dm0.0 = None and ?rd1.0 = None
      and dm = "[''freq_x'']" and lag = None and kw = defaults and r = r and ?d1.0 = "''freq_x''"
      and ?da2.0 = ?bad and ?dm2.0 = None and ?rd2.0 = None
      and pre = "[]" and ?d2.0 = "''freq_x''" and post = "[]" and ?kw2.0 = defaults and ?lag2.0 = None]
  have c1: "idft_check (1 / 1000) None ?bad ''freq_x'' = Inl (UncenteredSpectrumError ''freq_x'')"
    using t h1 h2 h3 by blast
  have c2: "centre_ok (1 / 1000) None ''freq_x'' (coord ?good ''freq_x'')"
    using t h4 r h6(2) by simp
  have c3: "idft ?bad None None None defaults = Inl (UncenteredSpectrumError ''freq_x'')"
    using t h1 h2 h3 h5 h6 h7 by simp
  show ?thesis using h1 h2 h3 h4 h5 r c1 c2 c3 by blast
qed


text \<open>
  Claim C6 as stated takes the midpoint on every axis. On the real axis the code
  checks the first coordinate value: the coordinate \<open>[0, 1/4, 1/2]\<close> of a real axis has
  the midpoint \<open>1/4\<close>, above the default tolerance, and the inverse transform returns.
\<close>

theorem idft_centring_check_counterexample:
  "\<not> isl (idft (line ''freq_x'' [0, 1/4, 1/2] [1, 2, 3]) None (Some ''freq_x'') None defaults)
   \<and> \<not> spec_centre_ok (spacing_tol defaults) [0, 1/4, 1/2]"
  by (simp add: eval_defs spec_centre_ok_def evenly_spaced_def)

section \<open>The spacing attributes of a transform\<close>

lemma new_dims_loop_attrs:
  "new_dims_loop w p ds (nc, ats, sw) = Inr (nc', ats', sw') \<Longrightarrow>
     (n \<in> new_name p ` set ds \<longrightarrow> (\<exists>s. ats' n = Some s))
     \<and> (n \<notin> new_name p ` set ds \<longrightarrow> ats' n = ats n)"
proof (induction ds arbitrary: nc ats sw)
  case Nil
  then show ?case by simp
next
  case (Cons x xs)
  from Cons.prems obtain k where k: "w x = Some k" "\<not> length k < 2"
    and r: "new_dims_loop w p xs (nc(new_name p x \<mapsto> k), ats(new_name p x \<mapsto> k ! 1 - k ! 0),
                  sw(x \<mapsto> new_name p x)) = Inr (nc', ats', sw')"
    by (auto split: option.splits if_splits)
  from Cons.IH[OF r] show ?case by auto
qed

lemma apply_phase_spacing: "apply_phase nc zs da = Inr da' \<Longrightarrow> spacing da' = spacing da \<and> coords da' = coords da \<and> dims da' = dims da"
proof (induction zs arbitrary: da)
  case Nil
  then show ?case by simp
next
  case (Cons z zs)
  obtain u l where z: "z = (u, l)" by (cases z)
  from Cons.prems z obtain k where k: "nc u = Some k"
    and r: "apply_phase nc zs (da\<lparr>data := mul_along (index_of (dims da) u) (phase_ramp k l) (data da)\<rparr>) = Inr da'"
    by (auto split: option.splits)
  from Cons.IH[OF r] show ?case by simp
qed

lemma dft_finish_spacing:
  assumes "dft_finish rd kw rawdims dm N dx lx da f = Inr r" and "d \<in> set dm"
    and "new_name (prefix kw) d \<notin> set dm"
  shows "\<exists>s. spacing r (new_name (prefix kw) d) = Some s"
proof -
  from assms(1) obtain rl axes daft where
      c: "new_dims_and_coords dm (freq N dx rd (forced_shift rd kw)) (prefix kw) = Inr rl"
      and p: "(if true_phase kw
            then apply_phase (fst rl) (zip (map (\<lambda>i. dims (relabel da f dm rl) ! i) axes) lx)
                   (relabel da f dm rl)
            else Inr (relabel da f dm rl)) = Inr daft"
      and r: "r = transpose_xr
            (if true_amplitude kw
             then daft\<lparr>data := scale_nd (complex_of_real (prod_list dx)) (data daft)\<rparr>
             else daft) (swapped (snd (snd rl)) rawdims)"
    unfolding dft_finish_def bindE_Inr_iff by blast
  obtain nc ats sw where rl: "rl = (nc, ats, sw)" by (cases rl)
  have "\<exists>s. ats (new_name (prefix kw) d) = Some s"
    using c assms(2) new_dims_loop_attrs[of _ "prefix kw" dm Map.empty Map.empty Map.empty nc ats sw]
    unfolding new_dims_and_coords_def rl by blast
  then have "\<exists>s. spacing (relabel da f dm rl) (new_name (prefix kw) d) = Some s"
    using assms(3) by (auto simp: relabel_def rl restrict_map_def map_add_def)
  moreover have "spacing daft = spacing (relabel da f dm rl)"
    using p by (auto split: if_splits dest: apply_phase_spacing)
  ultimately show ?thesis using r by (simp add: transpose_xr_def)
qed

lemma dft_spacing_attr:
  assumes "dft det da dm0 rd kw = Inr r" and "resolve_dim da dm0 rd = Inr dm" and "d \<in> set dm"
    and "new_name (prefix kw) d \<notin> set dm"
  shows "\<exists>s. spacing r (new_name (prefix kw) d) = Some s"
proof -
  from assms(1,2) obtain rawdims N dx lx X f where
      c: "dft_finish rd kw rawdims dm N dx lx X f = Inr r"
    unfolding dft_def by (auto simp: bindE_Inr_iff)
  show ?thesis using dft_finish_spacing[OF c assms(3,4)] .
qed

lemma dft_Inr_dims_subset:
  assumes "dft det da dm0 rd kw = Inr r" and "resolve_dim da dm0 rd = Inr dm"
  shows "set dm \<subseteq> set (dims da)"
proof
  fix d assume d: "d \<in> set dm"
  from assms(1,2) obtain da1 axis_num where
      b: "(if chunks_to_segments kw then stack_chunks da dm else Inr da) = Inr da1"
      and ax: "mapE (get_axis_num (real_last da1 rd)) dm = Inr axis_num"
    unfolding dft_def by (auto simp: bindE_Inr_iff)
  have d1: "dims da1 = dims da" using b by (auto split: if_splits dest: stack_chunks_dims)
  have rr: "\<forall>r. rd = Some r \<longrightarrow> r \<in> set (dims da1)"
    using resolve_dim_real[OF assms(2)] d1 by simp
  from mapE_Inr_all[OF ax d] have "d \<in> set (dims (real_last da1 rd))"
    by (auto dest: get_axis_num_Inr)
  then show "d \<in> set (dims da)" using real_last_set_dims[OF rr] d1 by simp
qed


lemma updated_dims_eq:
  assumes "dims daft = map (\<lambda>d. if d \<in> set dm then new_name p d else d) (dims da)"
    and "\<forall>d \<in> set dm. new_name p d \<notin> set (dims da) \<and> \<not> contains ''segment'' (new_name p d)"
  shows "filter (\<lambda>d. d \<notin> set (dims da) \<and> \<not> contains ''segment'' d) (dims daft)
     = map (new_name p) (filter (\<lambda>d. d \<in> set dm) (dims da))"
proof -
  have "\<And>xs. set xs \<subseteq> set (dims da) \<Longrightarrow>
     filter (\<lambda>d. d \<notin> set (dims da) \<and> \<not> contains ''segment'' d)
        (map (\<lambda>d. if d \<in> set dm then new_name p d else d) xs)
     = map (new_name p) (filter (\<lambda>d. d \<in> set dm) xs)"
  proof -
    fix xs show "set xs \<subseteq> set (dims da) \<Longrightarrow>
     filter (\<lambda>d. d \<notin> set (dims da) \<and> \<not> contains ''segment'' d)
        (map (\<lambda>d. if d \<in> set dm then new_name p d else d) xs)
     = map (new_name p) (filter (\<lambda>d. d \<in> set dm) xs)"
      using assms(2) by (induction xs) auto
  qed
  then show ?thesis using assms(1) by simp
qed

lemma mapE_spacing_of:
  "\<forall>d \<in> set ds. \<exists>s. spacing ps d = Some s \<Longrightarrow>
     mapE (spacing_of ps) ds = Inr (map (\<lambda>d. the (spacing ps d)) ds)"
  by (induction ds) (auto simp: bindE_def spacing_of_def)

lemma spacing_map_data [simp]: "spacing (map_data g da) = spacing da"
  and dims_map_data [simp]: "dims (map_data g da) = dims da"
  and coords_map_data [simp]: "coords (map_data g da) = coords da"
  and shape_map_data [simp]: "shape (data (map_data g da)) = shape (data da)"
  and item_map_data [simp]: "item (data (map_data g da)) idx = g (item (data da) idx)"
  by (simp_all add: map_data_def)

lemma power_spectrum_cases:
  assumes r: "resolve_dim da dm0 rd = Inr dm"
    and t: "dft det da dm0 rd (kw\<lparr>true_amplitude := True, true_phase := False\<rparr>) = Inr daft"
    and n: "\<forall>d \<in> set dm. new_name (prefix kw) d \<notin> set (dims da)
              \<and> \<not> contains ''segment'' (new_name (prefix kw) d)"
  shows "power_spectrum det da dm0 rd sc dens kw =
     (let ps = (if rd \<noteq> None then map_data (\<lambda>z. z * 2) (map_data (\<lambda>z. complex_of_real ((cmod z)\<^sup>2)) daft)
                else map_data (\<lambda>z. complex_of_real ((cmod z)\<^sup>2)) daft);
          fs = prod_list (frequency_spacings da dm (prefix kw) daft);
          s = effective_scaling sc dens
      in if s = ''density'' then Inr (map_data (\<lambda>z. z * complex_of_real fs) ps)
         else if s = ''spectrum'' then Inr (map_data (\<lambda>z. z * complex_of_real (fs\<^sup>2)) ps)
         else if s = ''false_density'' then Inr ps
         else Inl (InvalidScalingError s))"
proof -
  let ?kw = "kw\<lparr>true_amplitude := True, true_phase := False\<rparr>"
  let ?ps = "(if rd \<noteq> None then map_data (\<lambda>z. z * 2) (map_data (\<lambda>z. complex_of_real ((cmod z)\<^sup>2)) daft)
                else map_data (\<lambda>z. complex_of_real ((cmod z)\<^sup>2)) daft)"
  let ?up = "map (new_name (prefix kw)) (filter (\<lambda>d. d \<in> set dm) (dims da))"
  have dd: "dims daft = map (\<lambda>d. if d \<in> set dm then new_name (prefix kw) d else d) (dims da)"
    using dft_dims[OF t r] by simp
  have up: "filter (\<lambda>d. d \<notin> set (dims da) \<and> \<not> contains ''segment'' d) (dims daft) = ?up"
    using updated_dims_eq[OF dd n] .
  have sub: "set dm \<subseteq> set (dims da)" using dft_Inr_dims_subset[OF t r] .
  have sp: "\<forall>x \<in> set ?up. \<exists>s. spacing ?ps x = Some s"
  proof
    fix x assume "x \<in> set ?up"
    then obtain d where d: "d \<in> set dm" "x = new_name (prefix kw) d" by auto
    then have "new_name (prefix ?kw) d \<notin> set dm" using n sub by auto
    then have "\<exists>s. spacing daft (new_name (prefix ?kw) d) = Some s"
      using dft_spacing_attr[OF t r d(1)] by simp
    then show "\<exists>s. spacing ?ps x = Some s" using d by simp
  qed
  have m: "mapE (spacing_of ?ps) ?up = Inr (frequency_spacings da dm (prefix kw) daft)"
    using mapE_spacing_of[OF sp] by (simp add: frequency_spacings_def comp_def)
  have "power_spectrum det da dm0 rd sc dens kw = apply_scaling (effective_scaling sc dens) ?up ?ps"
    unfolding power_spectrum_def Let_def t by (simp add: bindE_def up)
  then show ?thesis
    unfolding apply_scaling_def m Let_def by (simp add: bindE_def)
qed


section \<open>C5: the scaling of the power spectrum\<close>

text \<open>
  Claim C5, as amended. Take a call of \<open>power_spectrum\<close> whose forward transform
  returns, and in which no new name of a transformed dimension is a dimension of the
  input or contains \<open>segment\<close>. The scaling in force is the \<open>scaling\<close> argument when the
  legacy \<open>density\<close> flag is absent, \<open>density\<close> when the flag is true and \<open>false_density\<close>
  when it is false. With \<open>density\<close> the squared magnitude of the transform (doubled
  when there is a real axis) is multiplied by the product of the spacings of the
  frequency axes, with \<open>spectrum\<close> by the square of that product, with \<open>false_density\<close>
  it is left as it is, and any other scaling in force raises the invalid-scaling error.
\<close>

theorem power_spectrum_scaling:
  "(resolve_dim da dm0 rd = Inr dm
     \<and> dft det da dm0 rd (kw\<lparr>true_amplitude := True, true_phase := False\<rparr>) = Inr daft
     \<and> (\<forall>d \<in> set dm. new_name (prefix kw) d \<notin> set (dims da)
                      \<and> \<not> contains ''segment'' (new_name (prefix kw) d))
     \<longrightarrow>
       (effective_scaling sc dens = ''density'' \<longrightarrow>
          power_scaled_by (prod_list (frequency_spacings da dm (prefix kw) daft)) rd daft
            (power_spectrum det da dm0 rd sc dens kw))
     \<and> (effective_scaling sc dens = ''spectrum'' \<longrightarrow>
          power_scaled_by ((prod_list (frequency_spacings da dm (prefix kw) daft))\<^sup>2) rd daft
            (power_spectrum det da dm0 rd sc dens kw))
     \<and> (effective_scaling sc dens = ''false_density'' \<longrightarrow>
          power_scaled_by 1 rd daft (power_spectrum det da dm0 rd sc dens kw))
     \<and> (effective_scaling sc dens \<notin> {''density'', ''spectrum'', ''false_density''} \<longrightarrow>
          power_spectrum det da dm0 rd sc dens kw = Inl (InvalidScalingError (effective_scaling sc dens))))
   \<and> effective_scaling sc None = sc
   \<and> effective_scaling sc (Some True) = ''density''
   \<and> effective_scaling sc (Some False) = ''false_density''"
proof (intro conjI impI)
  assume h: "resolve_dim da dm0 rd = Inr dm
     \<and> dft det da dm0 rd (kw\<lparr>true_amplitude := True, true_phase := False\<rparr>) = Inr daft
     \<and> (\<forall>d \<in> set dm. new_name (prefix kw) d \<notin> set (dims da)
                      \<and> \<not> contains ''segment'' (new_name (prefix kw) d))"
  note c = power_spectrum_cases[of da dm0 rd dm det kw daft sc dens]
  {
    assume "effective_scaling sc dens = ''density''"
    then show "power_scaled_by (prod_list (frequency_spacings da dm (prefix kw) daft)) rd daft
            (power_spectrum det da dm0 rd sc dens kw)"
      using c h by (simp add: power_scaled_by_def Let_def)
  }
  {
    assume "effective_scaling sc dens = ''spectrum''"
    then show "power_scaled_by ((prod_list (frequency_spacings da dm (prefix kw) daft))\<^sup>2) rd daft
            (power_spectrum det da dm0 rd sc dens kw)"
      using c h by (simp add: power_scaled_by_def Let_def)
  }
  {
    assume "effective_scaling sc dens = ''false_density''"
    then show "power_scaled_by 1 rd daft (power_spectrum det da dm0 rd sc dens kw)"
      using c h by (simp add: power_scaled_by_def Let_def)
  }
  {
    assume "effective_scaling sc dens \<notin> {''density'', ''spectrum'', ''false_density''}"
    then show "power_spectrum det da dm0 rd sc dens kw = Inl (InvalidScalingError (effective_scaling sc dens))"
      using c h by (simp add: Let_def)
  }
qed (simp_all add: effective_scaling_def)



text \<open>The theorem on a four-point line, once for each scaling.\<close>

lemma ex3: "\<exists>r. dft no_detrend (line ''x'' [-2, -1, 0, 1] v) None None
     (defaults\<lparr>true_amplitude := True, true_phase := False\<rparr>) = Inr r"
  by (simp add: eval_defs)

theorem power_spectrum_scaling_witness:
  "resolve_dim (line ''x'' [-2, -1, 0, 1] [1, 2, 3, 4]) None None = Inr [''x'']
   \<and> new_name (prefix defaults) ''x'' \<notin> set (dims (line ''x'' [-2, -1, 0, 1] [1, 2, 3, 4]))
   \<and> \<not> contains ''segment'' (new_name (prefix defaults) ''x'')
   \<and> (\<exists>daft. dft no_detrend (line ''x'' [-2, -1, 0, 1] [1, 2, 3, 4]) None None
                (defaults\<lparr>true_amplitude := True, true_phase := False\<rparr>) = Inr daft
        \<and> power_scaled_by
             (prod_list (frequency_spacings (line ''x'' [-2, -1, 0, 1] [1, 2, 3, 4]) [''x''] (prefix defaults) daft))
             None daft
             (power_spectrum no_detrend (line ''x'' [-2, -1, 0, 1] [1, 2, 3, 4]) None None ''density'' None defaults)
        \<and> power_scaled_by
             ((prod_list (frequency_spacings (line ''x'' [-2, -1, 0, 1] [1, 2, 3, 4]) [''x''] (prefix defaults) daft))\<^sup>2)
             None daft
             (power_spectrum no_detrend (line ''x'' [-2, -1, 0, 1] [1, 2, 3, 4]) None None ''spectrum'' None defaults)
        \<and> power_scaled_by 1 None daft
             (power_spectrum no_detrend (line ''x'' [-2, -1, 0, 1] [1, 2, 3, 4]) None None ''density'' (Some False) defaults))
   \<and> power_spectrum no_detrend (line ''x'' [-2, -1, 0, 1] [1, 2, 3, 4]) None None ''bogus'' None defaults
        = Inl (InvalidScalingError ''bogus'')"
proof -
  let ?da = "line ''x'' [-2, -1, 0, 1] [1, 2, 3, 4]"
  obtain daft where t: "dft no_detrend ?da None None
                (defaults\<lparr>true_amplitude := True, true_phase := False\<rparr>) = Inr daft"
    using ex3 by blast
  have h1: "resolve_dim ?da None None = Inr [''x'']"
    by (simp add: resolve_dim_def line_def)
  have h2: "\<forall>d \<in> set [''x'']. new_name (prefix defaults) d \<notin> set (dims ?da)
                      \<and> \<not> contains ''segment'' (new_name (prefix defaults) d)"
    by (simp add: new_name_def defaults_def line_def)
  note th = power_spectrum_scaling[where da = ?da and ?dm0.0 = None and rd = None and dm = "[''x'']"
      and det = no_detrend and kw = defaults and daft = daft]
  have e: "effective_scaling ''density'' None = ''density''"
      "effective_scaling ''spectrum'' None = ''spectrum''"
      "effective_scaling ''density'' (Some False) = ''false_density''"
      "effective_scaling ''bogus'' None = ''bogus''"
    by (simp_all add: effective_scaling_def)
  have c1: "power_scaled_by (prod_list (frequency_spacings ?da [''x''] (prefix defaults) daft)) None daft
             (power_spectrum no_detrend ?da None None ''density'' None defaults)"
    using th[where sc = "''density''" and dens = None] h1 h2 t e(1) by blast
  have c2: "power_scaled_by ((prod_list (frequency_spacings ?da [''x''] (prefix defaults) daft))\<^sup>2) None daft
             (power_spectrum no_detrend ?da None None ''spectrum'' None defaults)"
    using th[where sc = "''spectrum''" and dens = None] h1 h2 t e(2) by blast
  have c3: "power_scaled_by 1 None daft
             (power_spectrum no_detrend ?da None None ''density'' (Some False) defaults)"
    using th[where sc = "''density''" and dens = "Some False"] h1 h2 t e(3) by blast
  have ne: "''bogus'' \<notin> {''density'', ''spectrum'', ''false_density''}" by simp
  have c4: "power_spectrum no_detrend ?da None None ''bogus'' None defaults
        = Inl (InvalidScalingError ''bogus'')"
    using th[where sc = "''bogus''" and dens = None] h1 h2 t ne unfolding e(4) by blast
  have h2': "new_name (prefix defaults) ''x'' \<notin> set (dims ?da)"
      "\<not> contains ''segment'' (new_name (prefix defaults) ''x'')"
    using h2 by simp_all
  show ?thesis using h1 h2' t c1 c2 c3 c4 by blast
qed


text \<open>
  Claim C5 as stated lets every unknown \<open>scaling\<close> value raise the error. With the
  legacy flag \<open>density=True\<close> the \<open>scaling\<close> argument is ignored, and a call with an
  unknown value returns a result.
\<close>

theorem power_spectrum_scaling_counterexample:
  "\<not> isl (power_spectrum no_detrend (line ''x'' [-2, -1, 0, 1] [1, 2, 3, 4]) None None
            ''bogus'' (Some True) defaults)
   \<and> ''bogus'' \<notin> {''density'', ''spectrum'', ''false_density''}"
  by (simp add: eval_defs power_spectrum_def apply_scaling_def effective_scaling_def map_data_def)

section \<open>The product of two transforms\<close>

lemma mapE_map_Inr: "(\<And>x. x \<in> set xs \<Longrightarrow> f x = Inr (g x)) \<Longrightarrow> mapE f xs = Inr (map g xs)"
  by (induction xs) (auto simp: bindE_def)

lemma align_dim_same: "align_dim c n c n d = Inr (c, [0 ..< n], [0 ..< n])"
  by (cases c) (simp_all add: align_dim_def)

lemma valid_index_nth:
  "valid_index shp idx \<Longrightarrow> length idx = length shp \<and> (\<forall>i < length shp. idx ! i < shp ! i)"
  by (auto simp: valid_index_def list_all2_conv_all_nth)

lemma xr_mul_same_labels:
  assumes s: "same_labels A B" and w: "length (shape (data A)) = length (dims A)"
  shows "\<exists>cs. xr_mul A B = Inr cs \<and> dims cs = dims A \<and> spacing cs = spacing B ++ spacing A
      \<and> shape (data cs) = shape (data A)
      \<and> (\<forall>idx. valid_index (shape (data A)) idx
            \<longrightarrow> item (data cs) idx = item (data A) idx * item (data B) idx)"
proof -
  let ?n = "length (dims A)"
  let ?g = "\<lambda>i. (coords A (dims A ! i), [0 ..< shape (data A) ! i], [0 ..< shape (data A) ! i])"
  have m: "mapE (\<lambda>i. align_dim (coords A (dims A ! i)) (shape (data A) ! i)
                               (coords B (dims A ! i)) (shape (data B) ! i) (dims A ! i))
                 [0 ..< ?n] = Inr (map ?g [0 ..< ?n])"
  proof (rule mapE_map_Inr)
    fix i assume "i \<in> set [0 ..< ?n]"
    then have "coords B (dims A ! i) = coords A (dims A ! i)"
      using s by (auto simp: same_labels_def list_all_iff)
    moreover have "shape (data B) ! i = shape (data A) ! i" using s by (simp add: same_labels_def)
    ultimately show "align_dim (coords A (dims A ! i)) (shape (data A) ! i)
                               (coords B (dims A ! i)) (shape (data B) ! i) (dims A ! i) = Inr (?g i)"
      by (simp add: align_dim_same)
  qed
  have sh: "map (\<lambda>(c, p1, p2). length p1) (map ?g [0 ..< ?n]) = shape (data A)"
    using w[symmetric] by (simp add: comp_def map_nth)
  have it: "\<And>idx. valid_index (shape (data A)) idx \<Longrightarrow>
      map (\<lambda>i. fst (snd (map ?g [0 ..< ?n] ! i)) ! (idx ! i)) [0 ..< length idx] = idx
      \<and> map (\<lambda>i. snd (snd (map ?g [0 ..< ?n] ! i)) ! (idx ! i)) [0 ..< length idx] = idx"
  proof -
    fix idx assume "valid_index (shape (data A)) idx"
    then have l: "length idx = ?n" and b: "\<forall>i < ?n. idx ! i < shape (data A) ! i"
      using valid_index_nth w by auto
    show "map (\<lambda>i. fst (snd (map ?g [0 ..< ?n] ! i)) ! (idx ! i)) [0 ..< length idx] = idx
      \<and> map (\<lambda>i. snd (snd (map ?g [0 ..< ?n] ! i)) ! (idx ! i)) [0 ..< length idx] = idx"
      using l b by (auto intro!: nth_equalityI)
  qed
  show ?thesis
    apply (simp only: xr_mul_def m bindE_def sum.case sh)
    apply (simp add: it)
    done
qed


lemma dft_finish_shape_length:
  "dft_finish rd kw rawdims dm N dx lx da f = Inr r \<Longrightarrow> length (shape (data r)) = length (dims r)"
  unfolding dft_finish_def bindE_Inr_iff
  by (auto simp: transpose_xr_def transpose_nd_def)

lemma dft_shape_length:
  assumes "dft det da dm0 rd kw = Inr r"
  shows "length (shape (data r)) = length (dims r)"
proof -
  from assms obtain rawdims dm N dx lx X f where "dft_finish rd kw rawdims dm N dx lx X f = Inr r"
    unfolding dft_def by (auto simp: bindE_Inr_iff)
  then show ?thesis by (rule dft_finish_shape_length)
qed

lemma mapE_Inl: "mapE f xs = Inl e \<Longrightarrow> \<exists>x \<in> set xs. f x = Inl e"
  by (induction xs) (auto simp: bindE_Inl_iff)

lemma align_dim_error: "align_dim c1 n1 c2 n2 d = Inl e \<Longrightarrow> e = AlignmentError d"
  by (auto simp: align_dim_def Let_def split: option.splits if_splits)

lemma xr_mul_error: "xr_mul A B = Inl e \<Longrightarrow> \<exists>d. e = AlignmentError d"
  unfolding xr_mul_def bindE_Inl_iff
  by (auto dest!: mapE_Inl align_dim_error)

lemma spacing_of_error: "spacing_of ps d = Inl e \<Longrightarrow> e = AttributeError d"
  by (auto simp: spacing_of_def split: option.splits)

lemma apply_scaling_error:
  "apply_scaling s u ps = Inl e \<Longrightarrow> (\<exists>d. e = AttributeError d) \<or> e = InvalidScalingError s"
  unfolding apply_scaling_def
  by (auto simp: bindE_Inl_iff split: if_splits dest!: mapE_Inl spacing_of_error)

lemma cross_spectrum_unfold:
  assumes "dft det a dm0 rd (kw\<lparr>true_amplitude := True\<rparr>) = Inr A"
    and "dft det b dm0 rd (kw\<lparr>true_amplitude := True\<rparr>) = Inr B"
  shows "cross_spectrum det a b dm0 rd sc dens kw =
     (if dims A \<noteq> dims B then Inl MismatchedDimensionsError
      else bindE (xr_mul A (map_data cnj B)) (\<lambda>cs0.
             apply_scaling (effective_scaling sc dens)
               (filter (\<lambda>d. d \<notin> set (dims a) \<and> \<not> contains ''segment'' d) (dims A))
               (if rd \<noteq> None then map_data (\<lambda>z. z * 2) cs0 else cs0)))"
  unfolding cross_spectrum_def Let_def assms by (simp add: bindE_def)

lemma cross_spectrum_mismatch_iff:
  assumes "dft det a dm0 rd (kw\<lparr>true_amplitude := True\<rparr>) = Inr A"
    and "dft det b dm0 rd (kw\<lparr>true_amplitude := True\<rparr>) = Inr B"
  shows "cross_spectrum det a b dm0 rd sc dens kw = Inl MismatchedDimensionsError
           \<longleftrightarrow> dims A \<noteq> dims B"
proof (cases "dims A \<noteq> dims B")
  case True
  then show ?thesis by (simp add: cross_spectrum_unfold[OF assms])
next
  case False
  have "cross_spectrum det a b dm0 rd sc dens kw \<noteq> Inl MismatchedDimensionsError"
  proof
    assume "cross_spectrum det a b dm0 rd sc dens kw = Inl MismatchedDimensionsError"
    then have "bindE (xr_mul A (map_data cnj B)) (\<lambda>cs0.
             apply_scaling (effective_scaling sc dens)
               (filter (\<lambda>d. d \<notin> set (dims a) \<and> \<not> contains ''segment'' d) (dims A))
               (if rd \<noteq> None then map_data (\<lambda>z. z * 2) cs0 else cs0)) = Inl MismatchedDimensionsError"
      using False by (simp add: cross_spectrum_unfold[OF assms])
    then show False
      unfolding bindE_Inl_iff
      by (auto dest!: xr_mul_error apply_scaling_error)
  qed
  then show ?thesis using False by simp
qed


lemma new_dims_loop_consistent:
  "new_dims_loop w p ds (nc, ats, sw) = Inr (nc', ats', sw') \<Longrightarrow>
     (n \<in> new_name p ` set ds \<longrightarrow> (\<exists>k. nc' n = Some k \<and> ats' n = Some (k ! 1 - k ! 0)))
     \<and> (n \<notin> new_name p ` set ds \<longrightarrow> nc' n = nc n \<and> ats' n = ats n)"
proof (induction ds arbitrary: nc ats sw)
  case Nil
  then show ?case by simp
next
  case (Cons x xs)
  from Cons.prems obtain k where k: "w x = Some k" "\<not> length k < 2"
    and r: "new_dims_loop w p xs (nc(new_name p x \<mapsto> k), ats(new_name p x \<mapsto> k ! 1 - k ! 0),
                  sw(x \<mapsto> new_name p x)) = Inr (nc', ats', sw')"
    by (auto split: option.splits if_splits)
  from Cons.IH[OF r] show ?case by auto
qed

lemma dft_finish_new_label:
  assumes "dft_finish rd kw rawdims dm N dx lx da f = Inr r" and "d \<in> set dm"
  shows "spacing r (new_name (prefix kw) d)
           = map_option (\<lambda>k. k ! 1 - k ! 0) (coords r (new_name (prefix kw) d))"
proof -
  from assms(1) obtain rl axes daft where
      c: "new_dims_and_coords dm (freq N dx rd (forced_shift rd kw)) (prefix kw) = Inr rl"
      and p: "(if true_phase kw
            then apply_phase (fst rl) (zip (map (\<lambda>i. dims (relabel da f dm rl) ! i) axes) lx)
                   (relabel da f dm rl)
            else Inr (relabel da f dm rl)) = Inr daft"
      and r: "r = transpose_xr
            (if true_amplitude kw
             then daft\<lparr>data := scale_nd (complex_of_real (prod_list dx)) (data daft)\<rparr>
             else daft) (swapped (snd (snd rl)) rawdims)"
    unfolding dft_finish_def bindE_Inr_iff by blast
  obtain nc ats sw where rl: "rl = (nc, ats, sw)" by (cases rl)
  let ?n = "new_name (prefix kw) d"
  have "\<exists>k. nc ?n = Some k \<and> ats ?n = Some (k ! 1 - k ! 0)"
    using c assms(2) new_dims_loop_consistent[of _ "prefix kw" dm Map.empty Map.empty Map.empty nc ats sw ?n]
    unfolding new_dims_and_coords_def rl by blast
  then have "spacing (relabel da f dm rl) ?n
      = map_option (\<lambda>k. k ! 1 - k ! 0) (coords (relabel da f dm rl) ?n)"
    by (auto simp: relabel_def rl restrict_map_def map_add_def)
  moreover have "spacing daft = spacing (relabel da f dm rl) \<and> coords daft = coords (relabel da f dm rl)"
    using p by (auto split: if_splits dest: apply_phase_spacing)
  ultimately show ?thesis using r by (simp add: transpose_xr_def)
qed

lemma dft_new_label:
  assumes "dft det da dm0 rd kw = Inr r" and "resolve_dim da dm0 rd = Inr dm" and "d \<in> set dm"
  shows "spacing r (new_name (prefix kw) d)
           = map_option (\<lambda>k. k ! 1 - k ! 0) (coords r (new_name (prefix kw) d))"
proof -
  from assms(1,2) obtain rawdims N dx lx X f where
      c: "dft_finish rd kw rawdims dm N dx lx X f = Inr r"
    unfolding dft_def by (auto simp: bindE_Inr_iff)
  show ?thesis using dft_finish_new_label[OF c assms(3)] .
qed

lemma apply_scaling_cases:
  "mapE (spacing_of ps) U = Inr ss \<Longrightarrow>
     apply_scaling s U ps =
       (if s = ''density'' then Inr (map_data (\<lambda>z. z * complex_of_real (prod_list ss)) ps)
        else if s = ''spectrum'' then Inr (map_data (\<lambda>z. z * complex_of_real ((prod_list ss)\<^sup>2)) ps)
        else if s = ''false_density'' then Inr ps
        else Inl (InvalidScalingError s))"
  by (simp add: apply_scaling_def bindE_def)

lemma same_labels_cnj: "same_labels A (map_data cnj B) = same_labels A B"
  by (simp add: same_labels_def)

lemma same_labels_sym: "same_labels A B \<Longrightarrow> same_labels B A"
  by (auto simp: same_labels_def list_all_iff)

lemma conjugate_of_map_data:
  "conjugate_of p1 p2 \<Longrightarrow> conjugate_of (map_data (\<lambda>z. z * complex_of_real c) p1)
     (map_data (\<lambda>z. z * complex_of_real c) p2)"
  by (simp add: conjugate_of_def)

lemma conjugate_of_double:
  "conjugate_of p1 p2 \<Longrightarrow> conjugate_of (map_data (\<lambda>z. z * 2) p1) (map_data (\<lambda>z. z * 2) p2)"
  by (simp add: conjugate_of_def)

lemma apply_scaling_conj:
  assumes m: "mapE (spacing_of p1) U = mapE (spacing_of p2) U" and c: "conjugate_of p1 p2"
    and r: "apply_scaling s U p1 = Inr r1"
  shows "\<exists>r2. apply_scaling s U p2 = Inr r2 \<and> conjugate_of r1 r2"
proof (cases "s = ''density'' \<or> s = ''spectrum''")
  case True
  then obtain ss where ss: "mapE (spacing_of p1) U = Inr ss"
    using r by (auto simp: apply_scaling_def bindE_Inr_iff split: if_splits)
  then have ss2: "mapE (spacing_of p2) U = Inr ss" using m by simp
  show ?thesis
    using r True c unfolding apply_scaling_cases[OF ss] apply_scaling_cases[OF ss2]
    by (auto simp: conjugate_of_def split: if_splits)
next
  case False
  then show ?thesis using r c by (auto simp: apply_scaling_def split: if_splits)
qed


lemma dft_Inr_resolve: "dft det da dm0 rd kw = Inr r \<Longrightarrow> \<exists>dm. resolve_dim da dm0 rd = Inr dm"
  unfolding dft_def by (auto simp: bindE_Inr_iff)

lemma resolve_dim_dims: "dims a = dims b \<Longrightarrow> resolve_dim a dm0 rd = resolve_dim b dm0 rd"
  by (auto simp: resolve_dim_def Let_def split: option.splits)

lemma cross_spectrum_product:
  assumes r: "resolve_dim a dm0 rd = Inr dm"
    and tA: "dft det a dm0 rd (kw\<lparr>true_amplitude := True\<rparr>) = Inr A"
    and tB: "dft det b dm0 rd (kw\<lparr>true_amplitude := True\<rparr>) = Inr B"
    and s: "same_labels A B"
    and n: "\<forall>d \<in> set dm. new_name (prefix kw) d \<notin> set (dims a)
              \<and> \<not> contains ''segment'' (new_name (prefix kw) d)"
  shows "\<exists>cs. (\<forall>idx. valid_index (shape (data A)) idx \<longrightarrow>
                   item (data cs) idx = item (data A) idx * cnj (item (data B) idx)
                      * complex_of_real (if rd = None then 1 else 2))
     \<and> dims cs = dims A \<and> shape (data cs) = shape (data A)
     \<and> cross_spectrum det a b dm0 rd sc dens kw =
         (let fs = prod_list (frequency_spacings a dm (prefix kw) A);
              s = effective_scaling sc dens
          in if s = ''density'' then Inr (map_data (\<lambda>z. z * complex_of_real fs) cs)
             else if s = ''spectrum'' then Inr (map_data (\<lambda>z. z * complex_of_real (fs\<^sup>2)) cs)
             else if s = ''false_density'' then Inr cs
             else Inl (InvalidScalingError s))"
proof -
  let ?kw = "kw\<lparr>true_amplitude := True\<rparr>"
  let ?up = "map (new_name (prefix kw)) (filter (\<lambda>d. d \<in> set dm) (dims a))"
  have w: "length (shape (data A)) = length (dims A)" using dft_shape_length[OF tA] .
  from xr_mul_same_labels[OF s[folded same_labels_cnj[of A B]] w]
  obtain cs0 where m: "xr_mul A (map_data cnj B) = Inr cs0" and d0: "dims cs0 = dims A"
    and sp0: "spacing cs0 = spacing (map_data cnj B) ++ spacing A"
    and sh0: "shape (data cs0) = shape (data A)"
    and it0: "\<forall>idx. valid_index (shape (data A)) idx
            \<longrightarrow> item (data cs0) idx = item (data A) idx * item (data (map_data cnj B)) idx"
    by blast
  let ?cs = "(if rd \<noteq> None then map_data (\<lambda>z. z * 2) cs0 else cs0)"
  have dd: "dims A = map (\<lambda>d. if d \<in> set dm then new_name (prefix kw) d else d) (dims a)"
    using dft_dims[OF tA r] by simp
  have up: "filter (\<lambda>d. d \<notin> set (dims a) \<and> \<not> contains ''segment'' d) (dims A) = ?up"
    using updated_dims_eq[OF dd n] .
  have sub: "set dm \<subseteq> set (dims a)" using dft_Inr_dims_subset[OF tA r] .
  have sp: "\<forall>x \<in> set ?up. spacing ?cs x = spacing A x \<and> (\<exists>s. spacing A x = Some s)"
  proof
    fix x assume "x \<in> set ?up"
    then obtain d where d: "d \<in> set dm" "x = new_name (prefix kw) d" by auto
    then have "new_name (prefix ?kw) d \<notin> set dm" using n sub by auto
    then have "\<exists>s. spacing A (new_name (prefix ?kw) d) = Some s"
      using dft_spacing_attr[OF tA r d(1)] by simp
    then show "spacing ?cs x = spacing A x \<and> (\<exists>s. spacing A x = Some s)"
      using d sp0 by (auto simp: map_add_def)
  qed
  have "mapE (spacing_of ?cs) ?up = mapE (spacing_of A) ?up"
  proof (rule mapE_cong)
    fix x assume "x \<in> set ?up"
    then have "spacing ?cs x = spacing A x" using sp by blast
    then show "spacing_of ?cs x = spacing_of A x" by (simp only: spacing_of_def)
  qed
  also have "\<dots> = Inr (map (\<lambda>d. the (spacing A d)) ?up)"
  proof (rule mapE_spacing_of)
    show "\<forall>d \<in> set ?up. \<exists>s. spacing A d = Some s" using sp by blast
  qed
  finally have ms: "mapE (spacing_of ?cs) ?up = Inr (frequency_spacings a dm (prefix kw) A)"
    by (simp add: frequency_spacings_def comp_def)
  have "cross_spectrum det a b dm0 rd sc dens kw = apply_scaling (effective_scaling sc dens) ?up ?cs"
    using s unfolding cross_spectrum_unfold[OF tA tB] up m
    by (simp add: bindE_def same_labels_def)
  then have "cross_spectrum det a b dm0 rd sc dens kw =
         (let fs = prod_list (frequency_spacings a dm (prefix kw) A);
              s = effective_scaling sc dens
          in if s = ''density'' then Inr (map_data (\<lambda>z. z * complex_of_real fs) ?cs)
             else if s = ''spectrum'' then Inr (map_data (\<lambda>z. z * complex_of_real (fs\<^sup>2)) ?cs)
             else if s = ''false_density'' then Inr ?cs
             else Inl (InvalidScalingError s))"
    unfolding apply_scaling_cases[OF ms] Let_def by simp
  moreover have "\<forall>idx. valid_index (shape (data A)) idx \<longrightarrow>
                   item (data ?cs) idx = item (data A) idx * cnj (item (data B) idx)
                      * complex_of_real (if rd = None then 1 else 2)"
    using it0 by auto
  moreover have "dims ?cs = dims A \<and> shape (data ?cs) = shape (data A)"
    using d0 sh0 by simp
  ultimately show ?thesis by blast
qed


section \<open>Shapes of the kernel outputs\<close>

lemma length_lane [simp]: "length (lane a ax idx) = shape a ! ax"
  by (simp add: lane_def)

lemma shape_along_same:
  "(\<And>xs. length (g xs) = length xs) \<Longrightarrow> shape (along g ax a) = shape a"
  by (simp add: along_def)

lemma length_fft1 [simp]: "length (fft1 a) = length a"
  by (simp add: fft1_def)

lemma length_ifft1 [simp]: "length (ifft1 a) = length a"
  by (simp add: ifft1_def)

lemma length_fftshift [simp]: "length (fftshift xs) = length xs"
  by (simp add: fftshift_def)

lemma length_ifftshift [simp]: "length (ifftshift xs) = length xs"
  by (simp add: ifftshift_def)

lemma shape_fold_along:
  "(\<And>xs. length (g xs) = length xs) \<Longrightarrow> shape (fold (along g) axes a) = shape a"
  by (induction axes arbitrary: a) (simp_all add: shape_along_same)

lemma shape_fftn [simp]: "shape (fftn axes a) = shape a"
  by (simp add: fftn_def shape_fold_along)

lemma shape_ifftn [simp]: "shape (ifftn axes a) = shape a"
  by (simp add: ifftn_def shape_fold_along)

lemma shape_fftshift_nd [simp]: "shape (fftshift_nd axes a) = shape a"
  by (simp add: fftshift_nd_def shape_fold_along)

lemma shape_ifftshift_nd [simp]: "shape (ifftshift_nd axes a) = shape a"
  by (simp add: ifftshift_nd_def shape_fold_along)

lemma shape_scale_nd [simp]: "shape (scale_nd c a) = shape a"
  by (simp add: scale_nd_def)

lemma shape_mul_along [simp]: "shape (mul_along ax w a) = shape a"
  by (simp add: mul_along_def)


lemmas cross_eval = cross_spectrum_def xr_mul_def align_dim_def apply_scaling_def effective_scaling_def
  map_data_def ones2_def ones4_def


lemmas nd_eval = along_def lane_def fftn_def ifftn_def fftshift_nd_def ifftshift_nd_def fft1_def ifft1_def
  scale_nd_def mul_along_def lessThan_Suc

lemma ex4: "\<exists>r. dft no_detrend (line d [-2, -1, 0, 1] v) None None
     (defaults\<lparr>true_amplitude := True\<rparr>) = Inr r"
  by (simp add: eval_defs)


section \<open>C8: the symmetry of the cross spectrum\<close>

text \<open>
  Claim C8, as amended. For two arrays with the same dimension names whose forward
  transforms carry the same labels, whenever \<open>cross_spectrum a b\<close> returns a result,
  \<open>cross_spectrum b a\<close> (same options) returns one as well, and the first is the
  pointwise complex conjugate of the second.
\<close>

theorem cross_spectrum_symmetry:
  "dims a = dims b
   \<and> dft det a dm0 rd (kw\<lparr>true_amplitude := True\<rparr>) = Inr A
   \<and> dft det b dm0 rd (kw\<lparr>true_amplitude := True\<rparr>) = Inr B
   \<and> same_labels A B
   \<and> cross_spectrum det a b dm0 rd sc dens kw = Inr r1
   \<longrightarrow> (\<exists>r2. cross_spectrum det b a dm0 rd sc dens kw = Inr r2 \<and> conjugate_of r1 r2)"
proof
  let ?kw = "kw\<lparr>true_amplitude := True\<rparr>"
  assume h: "dims a = dims b
   \<and> dft det a dm0 rd ?kw = Inr A \<and> dft det b dm0 rd ?kw = Inr B
   \<and> same_labels A B
   \<and> cross_spectrum det a b dm0 rd sc dens kw = Inr r1"
  then have ab: "dims a = dims b" and tA: "dft det a dm0 rd ?kw = Inr A"
    and tB: "dft det b dm0 rd ?kw = Inr B" and s: "same_labels A B"
    and r1: "cross_spectrum det a b dm0 rd sc dens kw = Inr r1"
    by simp_all
  obtain dm where ra: "resolve_dim a dm0 rd = Inr dm" using dft_Inr_resolve[OF tA] by blast
  then have rb: "resolve_dim b dm0 rd = Inr dm" using resolve_dim_dims[OF ab] by simp
  have dAB: "dims A = dims B" using s by (simp add: same_labels_def)
  have wA: "length (shape (data A)) = length (dims A)" using dft_shape_length[OF tA] .
  have wB: "length (shape (data B)) = length (dims B)" using dft_shape_length[OF tB] .
  from xr_mul_same_labels[OF s[folded same_labels_cnj[of A B]] wA]
  obtain c1 where m1: "xr_mul A (map_data cnj B) = Inr c1" and d1: "dims c1 = dims A"
    and sp1: "spacing c1 = spacing (map_data cnj B) ++ spacing A"
    and sh1: "shape (data c1) = shape (data A)"
    and it1: "\<forall>idx. valid_index (shape (data A)) idx
            \<longrightarrow> item (data c1) idx = item (data A) idx * item (data (map_data cnj B)) idx"
    by blast
  have s': "same_labels B (map_data cnj A)"
    using same_labels_sym[OF s] by (simp add: same_labels_cnj)
  from xr_mul_same_labels[OF s' wB]
  obtain c2 where m2: "xr_mul B (map_data cnj A) = Inr c2" and d2: "dims c2 = dims B"
    and sp2: "spacing c2 = spacing (map_data cnj A) ++ spacing B"
    and sh2: "shape (data c2) = shape (data B)"
    and it2: "\<forall>idx. valid_index (shape (data B)) idx
            \<longrightarrow> item (data c2) idx = item (data B) idx * item (data (map_data cnj A)) idx"
    by blast
  have shAB: "shape (data A) = shape (data B)" using s by (simp add: same_labels_def)
  let ?c1 = "(if rd \<noteq> None then map_data (\<lambda>z. z * 2) c1 else c1)"
  let ?c2 = "(if rd \<noteq> None then map_data (\<lambda>z. z * 2) c2 else c2)"
  let ?U = "filter (\<lambda>d. d \<notin> set (dims a) \<and> \<not> contains ''segment'' d) (dims A)"
  have cj0: "conjugate_of c1 c2"
    using d1 d2 dAB sh1 sh2 shAB it1 it2 by (simp add: conjugate_of_def)
  have cj: "conjugate_of ?c1 ?c2"
    using cj0 by (auto intro: conjugate_of_double)
  have dd: "dims A = map (\<lambda>d. if d \<in> set dm then new_name (prefix kw) d else d) (dims a)"
    using dft_dims[OF tA ra] by simp
  have me: "mapE (spacing_of ?c1) ?U = mapE (spacing_of ?c2) ?U"
  proof (rule mapE_cong)
    fix u assume u: "u \<in> set ?U"
    then have uA: "u \<in> set (dims A)" and ua: "u \<notin> set (dims a)" by auto
    from uA dd obtain d where d: "d \<in> set (dims a)" "u = (if d \<in> set dm then new_name (prefix kw) d else d)"
      by auto
    with ua have dm: "d \<in> set dm" and un: "u = new_name (prefix ?kw) d" by (auto split: if_splits)
    have "coords A u = coords B u" using s uA by (auto simp: same_labels_def list_all_iff)
    then have "spacing A u = spacing B u"
      using dft_new_label[OF tA ra dm] dft_new_label[OF tB rb dm] un by simp
    then have "spacing ?c1 u = spacing ?c2 u"
      using sp1 sp2 by (auto simp: map_add_def split: option.splits)
    then show "spacing_of ?c1 u = spacing_of ?c2 u" by (simp only: spacing_of_def)
  qed
  have "apply_scaling (effective_scaling sc dens) ?U ?c1 = Inr r1"
    using r1 dAB unfolding cross_spectrum_unfold[OF tA tB] m1 by (simp add: bindE_def)
  from apply_scaling_conj[OF me cj this]
  obtain r2 where a2: "apply_scaling (effective_scaling sc dens) ?U ?c2 = Inr r2"
    and c2: "conjugate_of r1 r2" by blast
  have "cross_spectrum det b a dm0 rd sc dens kw = Inr r2"
    using a2 dAB ab unfolding cross_spectrum_unfold[OF tB tA] m2 by (simp add: bindE_def)
  then show "\<exists>r2. cross_spectrum det b a dm0 rd sc dens kw = Inr r2 \<and> conjugate_of r1 r2"
    using c2 by blast
qed


text \<open>The theorem on two four-point lines with the same coordinate.\<close>

theorem cross_spectrum_symmetry_witness:
  "dims (line ''x'' [-2, -1, 0, 1] [1, 2, 3, 4]) = dims (line ''x'' [-2, -1, 0, 1] [4, 3, 2, 1])
   \<and> (\<exists>A B r1 r2.
        dft no_detrend (line ''x'' [-2, -1, 0, 1] [1, 2, 3, 4]) None None (defaults\<lparr>true_amplitude := True\<rparr>) = Inr A
      \<and> dft no_detrend (line ''x'' [-2, -1, 0, 1] [4, 3, 2, 1]) None None (defaults\<lparr>true_amplitude := True\<rparr>) = Inr B
      \<and> same_labels A B
      \<and> cross_spectrum no_detrend (line ''x'' [-2, -1, 0, 1] [1, 2, 3, 4]) (line ''x'' [-2, -1, 0, 1] [4, 3, 2, 1])
           None None ''density'' None defaults = Inr r1
      \<and> cross_spectrum no_detrend (line ''x'' [-2, -1, 0, 1] [4, 3, 2, 1]) (line ''x'' [-2, -1, 0, 1] [1, 2, 3, 4])
           None None ''density'' None defaults = Inr r2
      \<and> conjugate_of r1 r2)"
proof -
  let ?a = "line ''x'' [-2, -1, 0, 1] [1, 2, 3, 4]"
  let ?b = "line ''x'' [-2, -1, 0, 1] [4, 3, 2, 1]"
  let ?kw = "defaults\<lparr>true_amplitude := True\<rparr>"
  obtain A where tA: "dft no_detrend ?a None None ?kw = Inr A" using ex4 by blast
  obtain B where tB: "dft no_detrend ?b None None ?kw = Inr B" using ex4 by blast
  have sl: "same_labels A B"
    using tA tB by (auto simp: eval_defs same_labels_def)
  have ab: "dims ?a = dims ?b" by (simp add: line_def)
  have "\<not> isl (cross_spectrum no_detrend ?a ?b None None ''density'' None defaults)"
    by (simp add: eval_defs cross_eval)
  then obtain r1 where r1: "cross_spectrum no_detrend ?a ?b None None ''density'' None defaults = Inr r1"
    by (cases "cross_spectrum no_detrend ?a ?b None None ''density'' None defaults") auto
  from cross_spectrum_symmetry[where a = ?a and b = ?b and det = no_detrend and ?dm0.0 = None
      and rd = None and kw = defaults and A = A and B = B and sc = "''density''" and dens = None
      and ?r1.0 = r1] ab tA tB sl r1
  obtain r2 where "cross_spectrum no_detrend ?b ?a None None ''density'' None defaults = Inr r2"
    and "conjugate_of r1 r2" by blast
  then show ?thesis using ab tA tB sl r1 by blast
qed


text \<open>
  Claim C8 as stated covers every pair on which \<open>cross_spectrum\<close> returns. For the line
  of two points and the line of four points the product is taken on the two
  frequencies they share and scaled by the spacing of the first operand, \<open>1/2\<close> in one
  order and \<open>1/4\<close> in the other: at the zero frequency the two results are \<open>4\<close> and \<open>2\<close>.
\<close>

theorem cross_spectrum_symmetry_counterexample:
  "\<not> isl (cross_spectrum no_detrend ones2 ones4 None None ''density'' None defaults)
   \<and> \<not> isl (cross_spectrum no_detrend ones4 ones2 None None ''density'' None defaults)
   \<and> item (data (projr (cross_spectrum no_detrend ones2 ones4 None None ''density'' None defaults))) [1] = 4
   \<and> cnj (item (data (projr (cross_spectrum no_detrend ones4 ones2 None None ''density'' None defaults))) [1]) = 2"
  by (simp add: eval_defs cross_eval nd_eval)

section \<open>The bins of the isotropic average\<close>

lemma fold_min_le: "fold min xs (a::real) \<le> a \<and> (\<forall>x \<in> set xs. fold min xs a \<le> x)"
proof (induction xs arbitrary: a)
  case Nil
  then show ?case by simp
next
  case (Cons x xs)
  have a: "fold min xs (min x a) \<le> min x a" and b: "\<forall>y \<in> set xs. fold min xs (min x a) \<le> y"
    using Cons.IH[of "min x a"] by auto
  from a have "fold min xs (min x a) \<le> x" "fold min xs (min x a) \<le> a" by simp_all
  with b show ?case by simp
qed

lemma fold_max_ge: "a \<le> fold max xs (a::real) \<and> (\<forall>x \<in> set xs. x \<le> fold max xs a)"
proof (induction xs arbitrary: a)
  case Nil
  then show ?case by simp
next
  case (Cons x xs)
  have a: "max x a \<le> fold max xs (max x a)" and b: "\<forall>y \<in> set xs. y \<le> fold max xs (max x a)"
    using Cons.IH[of "max x a"] by auto
  from a have "x \<le> fold max xs (max x a)" "a \<le> fold max xs (max x a)" by simp_all
  with b show ?case by simp
qed

lemma list_min_le: "x \<in> set xs \<Longrightarrow> list_min xs \<le> x"
  using fold_min_le[of "tl xs" "hd xs"] by (cases xs) (auto simp: list_min_def)

lemma list_max_ge: "x \<in> set xs \<Longrightarrow> x \<le> list_max xs"
  using fold_max_ge[of "hd xs" "tl xs"] by (cases xs) (auto simp: list_max_def)

lemma list_min_Min: "xs \<noteq> [] \<Longrightarrow> list_min xs = Min (set xs)"
  using Min.set_eq_fold[of "hd xs" "tl xs"] by (cases xs) (simp_all add: list_min_def)

lemma list_max_Max: "xs \<noteq> [] \<Longrightarrow> list_max xs = Max (set xs)"
  using Max.set_eq_fold[of "hd xs" "tl xs"] by (cases xs) (simp_all add: list_max_def)

text \<open>Counting the edges below a value, for edges in ascending order.\<close>

lemma count_below_mono:
  fixes f :: "nat \<Rightarrow> real"
  assumes "\<And>i j. i \<le> j \<Longrightarrow> f i \<le> f j"
  shows "\<forall>i < m. f i < v \<longleftrightarrow> i < length (filter (\<lambda>i. f i < v) [0 ..< m])"
proof (induction m)
  case 0
  then show ?case by simp
next
  case (Suc m)
  let ?c = "length (filter (\<lambda>i. f i < v) [0 ..< m])"
  have le: "?c \<le> m"
    using length_filter_le[of "\<lambda>i. f i < v" "[0 ..< m]"] by simp
  have len: "length (filter (\<lambda>i. f i < v) [0 ..< Suc m]) = ?c + (if f m < v then 1 else 0)"
    by simp
  show ?case
  proof (cases "f m < v")
    case True
    have all: "\<forall>i < m. f i < v"
    proof (intro allI impI)
      fix i assume "i < m"
      then have "f i \<le> f m" using assms[of i m] by simp
      then show "f i < v" using True by simp
    qed
    then have "filter (\<lambda>i. f i < v) [0 ..< m] = [0 ..< m]" by (simp add: filter_id_conv)
    then have c: "?c = m" by simp
    show ?thesis
    proof (intro allI impI)
      fix i assume i: "i < Suc m"
      have "f i < v" using all True i by (cases "i = m") auto
      moreover have "i < length (filter (\<lambda>i. f i < v) [0 ..< Suc m])"
        unfolding len c using True i by simp
      ultimately show "f i < v \<longleftrightarrow> i < length (filter (\<lambda>i. f i < v) [0 ..< Suc m])" by simp
    qed
  next
    case False
    show ?thesis
    proof (intro allI impI)
      fix i assume i: "i < Suc m"
      show "f i < v \<longleftrightarrow> i < length (filter (\<lambda>i. f i < v) [0 ..< Suc m])"
      proof (cases "i = m")
        case True
        then show ?thesis unfolding len using False le by simp
      next
        case ne: False
        then have "i < m" using i by simp
        then have "f i < v \<longleftrightarrow> i < ?c" using Suc by blast
        then show ?thesis unfolding len using False by simp
      qed
    qed
  qed
qed

lemma length_filter_map: "length (filter P (map f xs)) = length (filter (\<lambda>x. P (f x)) xs)"
  by (induction xs) auto

lemma cut_code_increasing:
  fixes f :: "nat \<Rightarrow> real"
  assumes mono: "\<And>i j. i \<le> j \<Longrightarrow> f i \<le> f j"
    and lo: "f 0 < v" and hi: "v \<le> f n"
  shows "\<exists>b. cut_code (map f [0 ..< Suc n]) v = Some b \<and> b < n \<and> f b < v \<and> v \<le> f (Suc b)"
proof -
  define c where "c = length (filter (\<lambda>i. f i < v) [0 ..< Suc n])"
  have iff: "\<And>i. i < Suc n \<Longrightarrow> f i < v \<longleftrightarrow> i < c"
    unfolding c_def using count_below_mono[of f "Suc n" v] mono by blast
  have c0: "0 < c" using iff[of 0] lo by simp
  have cn: "c \<le> n"
  proof (rule ccontr)
    assume "\<not> c \<le> n"
    then have "n < c" by simp
    then have "f n < v" using iff[of n] by simp
    then show False using hi by simp
  qed
  have ids: "length (filter (\<lambda>e. e < v) (map f [0 ..< Suc n])) = c"
    unfolding c_def by (rule length_filter_map)
  have len: "length (map f [0 ..< Suc n]) = Suc n" by simp
  have b1: "f (c - 1) < v" using iff[of "c - 1"] c0 cn by simp
  have b2: "v \<le> f c" using iff[of c] cn by simp
  have cc: "cut_code (map f [0 ..< Suc n]) v = Some (c - 1)"
    unfolding cut_code_def Let_def ids len
    using c0 cn by simp
  have "Suc (c - 1) = c" using c0 by simp
  then have b3: "v \<le> f (Suc (c - 1))" using b2 by simp
  have "c - 1 < n" using c0 cn by simp
  then show ?thesis using cc b1 b3 by blast
qed

lemma map_upt_update0:
  "0 < m \<Longrightarrow> (map g [0 ..< m])[0 := a] = map (\<lambda>i. if i = 0 then a else g i) [0 ..< m]"
  by (rule nth_equalityI) (auto simp: nth_list_update)

lemma pd_cut_code:
  assumes ne: "v \<in> set x" and n: "1 \<le> n"
  shows "\<exists>b. cut_code (cut_edges x n) v = Some b \<and> b < n \<and> in_bin x n b v"
proof -
  define mn where "mn = list_min x"
  define mx where "mx = list_max x"
  have xne: "x \<noteq> []" using ne by auto
  note mm = list_min_Min[OF xne, symmetric] list_max_Max[OF xne, symmetric]
  have mnv: "mn \<le> v" and vmx: "v \<le> mx"
    using ne list_min_le list_max_ge by (auto simp: mn_def mx_def)
  have rn: "0 < real n" using n by simp
  show ?thesis
  proof (cases "mn = mx")
    case True
    define lo where "lo = mn - (if mn \<noteq> 0 then \<bar>mn\<bar> / 1000 else 1 / 1000)"
    define hi where "hi = mx + (if mx \<noteq> 0 then \<bar>mx\<bar> / 1000 else 1 / 1000)"
    define w where "w = (hi - lo) / real n"
    define f where "f = (\<lambda>i. lo + real i * w)"
    have lo: "lo < mn" by (simp add: lo_def)
    have hi: "mx < hi" by (simp add: hi_def)
    have w: "0 < w" using lo hi True rn by (simp add: w_def)
    have br: "bin_range x = (lo, hi)"
      using True by (simp add: bin_range_def lo_def hi_def mn_def mx_def mm)
    have ed: "cut_edges x n = map f [0 ..< Suc n]"
      using True unfolding cut_edges_def Let_def linspace_def f_def w_def lo_def hi_def mn_def mx_def
      by simp
    have mono: "\<And>i j. i \<le> j \<Longrightarrow> f i \<le> f j"
      using w by (simp add: f_def mult_right_mono)
    have f0: "f 0 < v" using lo mnv by (simp add: f_def)
    have "f n = hi" using rn by (simp add: f_def w_def)
    then have fn: "v \<le> f n" using hi vmx by simp
    from cut_code_increasing[of f v n, OF mono f0 fn]
    obtain b where b: "cut_code (map f [0 ..< Suc n]) v = Some b" "b < n" "f b < v" "v \<le> f (Suc b)"
      by blast
    have "in_bin x n b v"
      using b(3,4) unfolding in_bin_def bin_edge_def br f_def w_def by simp
    then show ?thesis using b ed by auto
  next
    case False
    then have lt: "mn < mx" using mnv vmx by simp
    define w where "w = (mx - mn) / real n"
    define f where "f = (\<lambda>i. if i = 0 then mn - (mx - mn) / 1000 else mn + real i * w)"
    have w: "0 < w" using lt rn by (simp add: w_def)
    have br: "bin_range x = (mn, mx)"
      using False by (simp add: bin_range_def mn_def mx_def mm)
    have "cut_edges x n = (map (\<lambda>i. mn + real i * w) [0 ..< Suc n])[0 := mn - (mx - mn) / 1000]"
      using False unfolding cut_edges_def Let_def linspace_def w_def mn_def mx_def
      by (simp del: upt_Suc add: upt_conv_Cons)
    then have ed: "cut_edges x n = map f [0 ..< Suc n]"
      unfolding f_def by (simp only: map_upt_update0[OF zero_less_Suc])
    have "0 < (mx - mn) / 1000" using lt by simp
    then have adj: "mn - (mx - mn) / 1000 < mn" by linarith
    have mono: "\<And>i j. i \<le> j \<Longrightarrow> f i \<le> f j"
    proof -
      fix i j :: nat assume ij: "i \<le> j"
      have "0 \<le> real j * w" using w by simp
      moreover have "real i * w \<le> real j * w" using ij w by (simp add: mult_right_mono)
      moreover have "mn - (mx - mn) / 1000 \<le> mn" by (rule adj[THEN less_imp_le])
      ultimately show "f i \<le> f j" using ij unfolding f_def by (auto; linarith)
    qed
    have "f 0 = mn - (mx - mn) / 1000" by (simp add: f_def)
    then have f0: "f 0 < v" using adj mnv by linarith
    have "f n = mx" using n rn by (simp add: f_def w_def)
    then have fn: "v \<le> f n" using vmx by simp
    from cut_code_increasing[of f v n, OF mono f0 fn]
    obtain b where b: "cut_code (map f [0 ..< Suc n]) v = Some b" "b < n" "f b < v" "v \<le> f (Suc b)"
      by blast
    have "in_bin x n b v"
    proof (cases "b = 0")
      case True
      then show ?thesis
        using b(4) mnv unfolding in_bin_def bin_edge_def br f_def w_def by auto
    next
      case False
      then show ?thesis
        using b(3,4) unfolding in_bin_def bin_edge_def br f_def w_def by simp
    qed
    then show ?thesis using b ed by auto
  qed
qed

lemma members_map:
  "members (map g xs) (map h xs) b = map g (filter (\<lambda>x. h x = b) xs)"
  by (induction xs) (auto simp: members_def)

lemma length_binned_agg: "length (binned_agg a codes n) = n"
  by (simp add: binned_agg_def)

lemma nth_binned_agg: "b < n \<Longrightarrow> binned_agg a codes n ! b = mean (members a codes b)"
  by (simp add: binned_agg_def)

lemma cells_distinct_dims:
  "d1 \<noteq> d0 \<Longrightarrow> cells d1 d0 n1 n0 = concat (map (\<lambda>i. map (\<lambda>j. (i, j)) [0 ..< n0]) [0 ..< n1])"
  by (simp add: cells_def)

lemma cells_nonempty:
  assumes "d1 \<noteq> d0" "0 < n1" "0 < n0"
  shows "cells d1 d0 n1 n0 \<noteq> []"
proof -
  have "(0, 0) \<in> set (cells d1 d0 n1 n0)"
    using assms by (auto simp: cells_distinct_dims intro!: bexI[of _ 0])
  then show ?thesis by auto
qed

lemma cells_grid:
  assumes "fftdim ! 1 \<noteq> fftdim ! 0"
  shows "cells (fftdim ! 1) (fftdim ! 0) (length (coord ps (fftdim ! 1))) (length (coord ps (fftdim ! 0)))
         = grid_cells ps fftdim"
  using assms by (simp add: cells_def grid_cells_def product_concat_map)

lemma radii_unfold:
  "map (\<lambda>(i, j). sqrt ((coord ps (fftdim ! 1) ! i)\<^sup>2 + (coord ps (fftdim ! 0) ! j)\<^sup>2))
     (grid_cells ps fftdim) = radii ps fftdim"
  by (simp add: radii_def radial_def case_prod_beta)

lemma n_bins_positive:
  assumes "1 \<le> n_bins ps fftdim nfactor"
  shows "0 < nfactor" "0 < length (coord ps (fftdim ! 1))" "0 < length (coord ps (fftdim ! 0))"
proof -
  let ?m = "min (length (coord ps (fftdim ! 1))) (length (coord ps (fftdim ! 0)))"
  have d: "1 \<le> ?m div nfactor" using assms by (simp add: n_bins_def)
  show "0 < nfactor" using d by (cases "nfactor = 0") simp_all
  have "0 < ?m" using d by (cases "?m = 0") simp_all
  then show "0 < length (coord ps (fftdim ! 1))" "0 < length (coord ps (fftdim ! 0))" by simp_all
qed

lemma bin_of_some:
  assumes nb: "1 \<le> n_bins ps fftdim nfactor" and c: "c \<in> set (grid_cells ps fftdim)"
  shows "\<exists>b. bin_of ps fftdim nfactor c = Some b \<and> b < n_bins ps fftdim nfactor
     \<and> in_bin (radii ps fftdim) (n_bins ps fftdim nfactor) b (radial ps fftdim c)"
proof -
  have "radial ps fftdim c \<in> set (radii ps fftdim)" using c by (simp add: radii_def)
  from pd_cut_code[OF this nb] show ?thesis by (simp add: bin_of_def)
qed

lemma codes_unfold:
  "map (cut_code (cut_edges (radii ps fftdim) (n_bins ps fftdim nfactor))) (radii ps fftdim)
     = map (bin_of ps fftdim nfactor) (grid_cells ps fftdim)"
  by (simp add: radii_def bin_of_def)

lemma members_bin_of:
  "members (map g (grid_cells ps fftdim))
           (map the (map (bin_of ps fftdim nfactor) (grid_cells ps fftdim))) b
         = map g (filter (\<lambda>c. the (bin_of ps fftdim nfactor c) = b) (grid_cells ps fftdim))"
  using members_map[of g "grid_cells ps fftdim" "\<lambda>c. the (bin_of ps fftdim nfactor c)" b]
  by (simp add: comp_def)

text \<open>The bins do not overlap, so the code of a cell is the one bin that holds its radial frequency.\<close>

lemma bin_range_less:
  assumes "x \<noteq> []"
  shows "fst (bin_range x) < snd (bin_range x)"
proof (cases "Min (set x) = Max (set x)")
  case True
  have "Min (set x) - (if Min (set x) \<noteq> 0 then \<bar>Min (set x)\<bar> / 1000 else 1 / 1000) < Min (set x)"
    by simp
  moreover have "Max (set x) < Max (set x) + (if Max (set x) \<noteq> 0 then \<bar>Max (set x)\<bar> / 1000 else 1 / 1000)"
    by simp
  ultimately show ?thesis using True by (simp add: bin_range_def)
next
  case False
  have "Min (set x) \<le> Max (set x)" using assms by (simp add: Min_le_iff)
  then show ?thesis using False by (simp add: bin_range_def)
qed

lemma bin_edge_mono:
  assumes "x \<noteq> []" and "i \<le> j"
  shows "bin_edge x n i \<le> bin_edge x n j"
proof -
  have "0 \<le> (snd (bin_range x) - fst (bin_range x)) / real n"
    using bin_range_less[OF assms(1)] by simp
  then have "real i * ((snd (bin_range x) - fst (bin_range x)) / real n)
             \<le> real j * ((snd (bin_range x) - fst (bin_range x)) / real n)"
    using assms(2) by (intro mult_right_mono) simp_all
  then show ?thesis by (simp add: bin_edge_def)
qed

lemma in_bin_le:
  assumes x: "x \<noteq> []" and b: "in_bin x n b v" and b': "in_bin x n b' v"
  shows "b \<le> b'"
proof (rule ccontr)
  assume "\<not> b \<le> b'"
  then have lt: "Suc b' \<le> b" by simp
  then have b0: "b \<noteq> 0" by simp
  have "v \<le> bin_edge x n (Suc b')" using b' by (simp add: in_bin_def)
  also have "\<dots> \<le> bin_edge x n b" by (rule bin_edge_mono[OF x lt])
  also have "\<dots> < v" using b b0 by (simp add: in_bin_def)
  finally show False by simp
qed

lemma in_bin_unique:
  assumes "x \<noteq> []" and "in_bin x n b v" and "in_bin x n b' v"
  shows "b = b'"
  using in_bin_le[OF assms] in_bin_le[OF assms(1) assms(3) assms(2)] by simp

lemma grid_cells_radii: "c \<in> set (grid_cells ps fftdim) \<Longrightarrow> radii ps fftdim \<noteq> []"
  by (auto simp: radii_def)

lemma bin_of_iff:
  assumes nb: "1 \<le> n_bins ps fftdim nfactor" and c: "c \<in> set (grid_cells ps fftdim)"
  shows "bin_of ps fftdim nfactor c = Some b
     \<longleftrightarrow> b < n_bins ps fftdim nfactor
         \<and> in_bin (radii ps fftdim) (n_bins ps fftdim nfactor) b (radial ps fftdim c)"
proof -
  from bin_of_some[OF nb c] obtain b0 where b0: "bin_of ps fftdim nfactor c = Some b0"
      "b0 < n_bins ps fftdim nfactor"
      "in_bin (radii ps fftdim) (n_bins ps fftdim nfactor) b0 (radial ps fftdim c)"
    by blast
  show ?thesis
  proof
    assume "bin_of ps fftdim nfactor c = Some b"
    then have "b = b0" using b0(1) by simp
    then show "b < n_bins ps fftdim nfactor
         \<and> in_bin (radii ps fftdim) (n_bins ps fftdim nfactor) b (radial ps fftdim c)"
      using b0 by simp
  next
    assume "b < n_bins ps fftdim nfactor
         \<and> in_bin (radii ps fftdim) (n_bins ps fftdim nfactor) b (radial ps fftdim c)"
    then have "b = b0" using in_bin_unique[OF grid_cells_radii[OF c] _ b0(3)] by blast
    then show "bin_of ps fftdim nfactor c = Some b" using b0(1) by simp
  qed
qed

lemma filter_bin_of:
  assumes nb: "1 \<le> n_bins ps fftdim nfactor" and b: "b < n_bins ps fftdim nfactor"
  shows "filter (\<lambda>c. the (bin_of ps fftdim nfactor c) = b) (grid_cells ps fftdim)
         = bin_cells ps fftdim nfactor b"
  unfolding bin_cells_def
proof (rule filter_cong[OF refl])
  fix c assume c: "c \<in> set (grid_cells ps fftdim)"
  from bin_of_some[OF nb c] obtain b' where "bin_of ps fftdim nfactor c = Some b'" by blast
  then have "the (bin_of ps fftdim nfactor c) = b \<longleftrightarrow> bin_of ps fftdim nfactor c = Some b" by simp
  then show "(the (bin_of ps fftdim nfactor c) = b)
     = in_bin (radii ps fftdim) (n_bins ps fftdim nfactor) b (radial ps fftdim c)"
    using bin_of_iff[OF nb c, of b] b by simp
qed

lemma members_bin:
  assumes nb: "1 \<le> n_bins ps fftdim nfactor" and b: "b < n_bins ps fftdim nfactor"
  shows "members (map g (grid_cells ps fftdim))
           (map the (map (bin_of ps fftdim nfactor) (grid_cells ps fftdim))) b
         = map g (bin_cells ps fftdim nfactor b)"
  unfolding members_bin_of filter_bin_of[OF nb b] ..

lemma cell_index_2d:
  assumes "two_dimensional ps fftdim"
  shows "cell_index ps (fftdim ! 1) (fftdim ! 0) [] rest c
         = map (\<lambda>d. if d = fftdim ! 1 then fst c else snd c) (dims ps)"
  using assms by (auto simp: cell_index_def two_dimensional_def)

lemma others_2d:
  assumes "two_dimensional ps fftdim"
  shows "filter (\<lambda>d. d \<noteq> fftdim ! 1 \<and> d \<noteq> fftdim ! 0) (dims ps) = []"
  using assms by (auto simp: two_dimensional_def)

lemma isotropize_2d:
  assumes td: "two_dimensional ps fftdim" and nb: "1 \<le> n_bins ps fftdim nfactor"
  shows "isotropize ps fftdim nfactor =
     Inr \<lparr>dims = [''freq_r''],
          coords = (coords ps |` {})(''freq_r'' \<mapsto> map Re (binned_agg (map complex_of_real (radii ps fftdim))
                     (map the (map (bin_of ps fftdim nfactor) (grid_cells ps fftdim))) (n_bins ps fftdim nfactor))),
          spacing = spacing ps |` {},
          data = \<lparr>shape = [n_bins ps fftdim nfactor],
                  item = (\<lambda>idx. binned_agg (map (spectrum_at ps fftdim) (grid_cells ps fftdim))
                             (map the (map (bin_of ps fftdim nfactor) (grid_cells ps fftdim))) (n_bins ps fftdim nfactor) ! last idx
                           * binned_agg (map complex_of_real (radii ps fftdim))
                             (map the (map (bin_of ps fftdim nfactor) (grid_cells ps fftdim))) (n_bins ps fftdim nfactor) ! last idx)\<rparr>\<rparr>"
proof -
  note pos = n_bins_positive[OF nb]
  have len: "\<not> length fftdim < 2" using td by (simp add: two_dimensional_def)
  have ne: "fftdim ! 1 \<noteq> fftdim ! 0" using td by (auto simp: two_dimensional_def)
  have in1: "fftdim ! 1 \<in> set (dims ps)" and in0: "fftdim ! 0 \<in> set (dims ps)"
    using td by (auto simp: two_dimensional_def)
  have nf: "nfactor \<noteq> 0" using pos(1) by simp
  have cne: "grid_cells ps fftdim \<noteq> []"
    using cells_nonempty[OF ne pos(2) pos(3)] unfolding cells_grid[OF ne] .
  then have rne: "radii ps fftdim \<noteq> []" by (simp add: radii_def)
  have pc: "pd_cut (radii ps fftdim) (n_bins ps fftdim nfactor)
            = Inr (map (bin_of ps fftdim nfactor) (grid_cells ps fftdim))"
    using nb rne by (simp add: pd_cut_def codes_unfold)
  have nn: "None \<notin> set (map (bin_of ps fftdim nfactor) (grid_cells ps fftdim))"
  proof
    assume "None \<in> set (map (bin_of ps fftdim nfactor) (grid_cells ps fftdim))"
    then obtain c where c: "c \<in> set (grid_cells ps fftdim)" "bin_of ps fftdim nfactor c = None"
      by auto
    from bin_of_some[OF nb c(1)] c(2) show False by auto
  qed
  have sp: "(\<lambda>c. item (data ps) (cell_index ps (fftdim ! 1) (fftdim ! 0) [] rest c)) = spectrum_at ps fftdim" for rest
    by (rule ext) (simp only: spectrum_at_def cell_index_2d[OF td])
  show ?thesis
    unfolding isotropize_def Let_def cells_grid[OF ne] radii_unfold n_bins_def[symmetric]
      others_2d[OF td]
    using len in1 in0 nf nn
    by (simp add: pc bindE_def sp[unfolded One_nat_def])
qed

lemma mean_map_real:
  "mean (map (\<lambda>c. complex_of_real (f c)) cs)
     = complex_of_real (if cs = [] then 0 else sum_list (map f cs) / real (length cs))"
proof -
  have "sum_list (map (\<lambda>c. complex_of_real (f c)) cs) = complex_of_real (sum_list (map f cs))"
    by (induction cs) simp_all
  then show ?thesis by (simp add: mean_def)
qed

section \<open>C7: the isotropic average\<close>

text \<open>
  Claim C7, as amended. For a spectrum \<open>ps\<close> with exactly the two dimensions of \<open>fftdim\<close>
  and \<open>1 \<le> nfactor \<le> min(axis lengths)\<close>, \<open>isotropize\<close> returns a one-dimensional array
  over \<open>freq_r\<close> of \<open>nbins = min(axis lengths) div nfactor\<close> items. Every cell \<open>(i, j)\<close> has
  the radial frequency \<open>sqrt(k[i]\<^sup>2 + l[j]\<^sup>2)\<close> and lies in exactly one of the \<open>nbins\<close> bins
  of equal width that divide the range of the radial frequencies (closed on the right,
  the first one holding the minimum as well). For a bin with cells, the coordinate of
  the bin is the sum of their radial frequencies divided by their number, and the item
  of the bin is the sum of the spectrum over the cells divided by their number, times
  that coordinate; for a bin without cells both are \<open>0\<close>. A spectrum of 64 by 64 cells
  with \<open>nfactor = 4\<close> gives 16 bins.
\<close>

theorem isotropize_bin_averages:
  assumes "two_dimensional ps fftdim" and "1 \<le> nfactor"
    and "nfactor \<le> min (length (coord ps (fftdim ! 1))) (length (coord ps (fftdim ! 0)))"
  shows "\<exists>out. isotropize ps fftdim nfactor = Inr out
     \<and> dims out = [''freq_r'']
     \<and> shape (data out) = [n_bins ps fftdim nfactor]
     \<and> length (coord out ''freq_r'') = n_bins ps fftdim nfactor
     \<and> (\<forall>c \<in> set (grid_cells ps fftdim). \<exists>!b. b < n_bins ps fftdim nfactor
           \<and> in_bin (radii ps fftdim) (n_bins ps fftdim nfactor) b (radial ps fftdim c))
     \<and> (\<forall>b < n_bins ps fftdim nfactor.
           (bin_cells ps fftdim nfactor b = [] \<longrightarrow>
              coord out ''freq_r'' ! b = 0 \<and> item (data out) [b] = 0)
         \<and> (bin_cells ps fftdim nfactor b \<noteq> [] \<longrightarrow>
              coord out ''freq_r'' ! b
                = sum_list (map (radial ps fftdim) (bin_cells ps fftdim nfactor b))
                  / real (length (bin_cells ps fftdim nfactor b))
            \<and> item (data out) [b]
                = sum_list (map (spectrum_at ps fftdim) (bin_cells ps fftdim nfactor b))
                    / of_nat (length (bin_cells ps fftdim nfactor b))
                  * complex_of_real (sum_list (map (radial ps fftdim) (bin_cells ps fftdim nfactor b))
                                      / real (length (bin_cells ps fftdim nfactor b)))))
     \<and> (length (coord ps (fftdim ! 0)) = 64 \<and> length (coord ps (fftdim ! 1)) = 64 \<and> nfactor = 4
           \<longrightarrow> shape (data out) = [16])"
proof -
  note td = assms(1)
  let ?n = "n_bins ps fftdim nfactor"
  let ?m = "min (length (coord ps (fftdim ! 1))) (length (coord ps (fftdim ! 0)))"
  have "1 * nfactor \<le> ?m" using assms(3) by simp
  then have "1 \<le> ?m div nfactor" using assms(2) by (simp only: less_eq_div_iff_mult_less_eq)
  then have nb: "1 \<le> ?n" by (simp add: n_bins_def)
  let ?codes = "map the (map (bin_of ps fftdim nfactor) (grid_cells ps fftdim))"
  let ?kr = "binned_agg (map complex_of_real (radii ps fftdim)) ?codes ?n"
  let ?iso = "binned_agg (map (spectrum_at ps fftdim) (grid_cells ps fftdim)) ?codes ?n"
  define out where "out = \<lparr>dims = [''freq_r''],
          coords = (coords ps |` {})(''freq_r'' \<mapsto> map Re ?kr),
          spacing = spacing ps |` {},
          data = \<lparr>shape = [?n], item = (\<lambda>idx. ?iso ! last idx * ?kr ! last idx)\<rparr>\<rparr>"
  have r: "isotropize ps fftdim nfactor = Inr out"
    unfolding out_def by (rule isotropize_2d[OF td nb])
  have d: "dims out = [''freq_r'']" by (simp add: out_def)
  have s: "shape (data out) = [?n]" by (simp add: out_def)
  have co: "coord out ''freq_r'' = map Re ?kr" by (simp add: out_def coord_def)
  have l: "length (coord out ''freq_r'') = ?n" by (simp add: co length_binned_agg)
  have cells: "\<forall>c \<in> set (grid_cells ps fftdim). \<exists>!b. b < ?n
           \<and> in_bin (radii ps fftdim) ?n b (radial ps fftdim c)"
  proof
    fix c assume c: "c \<in> set (grid_cells ps fftdim)"
    from bin_of_some[OF nb c] obtain b0 where b0: "b0 < ?n"
        "in_bin (radii ps fftdim) ?n b0 (radial ps fftdim c)"
      by blast
    show "\<exists>!b. b < ?n \<and> in_bin (radii ps fftdim) ?n b (radial ps fftdim c)"
    proof (rule ex1I[of _ b0])
      show "b0 < ?n \<and> in_bin (radii ps fftdim) ?n b0 (radial ps fftdim c)" using b0 by simp
    next
      fix b assume "b < ?n \<and> in_bin (radii ps fftdim) ?n b (radial ps fftdim c)"
      then show "b = b0" using in_bin_unique[OF grid_cells_radii[OF c] _ b0(2)] by blast
    qed
  qed
  have kr: "?kr ! b = complex_of_real (if bin_cells ps fftdim nfactor b = [] then 0
        else sum_list (map (radial ps fftdim) (bin_cells ps fftdim nfactor b))
             / real (length (bin_cells ps fftdim nfactor b)))" if "b < ?n" for b
    unfolding nth_binned_agg[OF that] radii_def
    using members_bin[OF nb that, of "\<lambda>c. complex_of_real (radial ps fftdim c)"]
      mean_map_real[of "radial ps fftdim" "bin_cells ps fftdim nfactor b"]
    by (simp add: comp_def)
  have iso: "?iso ! b = mean (map (spectrum_at ps fftdim) (bin_cells ps fftdim nfactor b))" if "b < ?n" for b
    unfolding nth_binned_agg[OF that]
    by (simp only: members_bin[OF nb that])
  have means: "\<forall>b < ?n.
           (bin_cells ps fftdim nfactor b = [] \<longrightarrow>
              coord out ''freq_r'' ! b = 0 \<and> item (data out) [b] = 0)
         \<and> (bin_cells ps fftdim nfactor b \<noteq> [] \<longrightarrow>
              coord out ''freq_r'' ! b
                = sum_list (map (radial ps fftdim) (bin_cells ps fftdim nfactor b))
                  / real (length (bin_cells ps fftdim nfactor b))
            \<and> item (data out) [b]
                = sum_list (map (spectrum_at ps fftdim) (bin_cells ps fftdim nfactor b))
                    / of_nat (length (bin_cells ps fftdim nfactor b))
                  * complex_of_real (sum_list (map (radial ps fftdim) (bin_cells ps fftdim nfactor b))
                                      / real (length (bin_cells ps fftdim nfactor b))))"
  proof (intro allI impI conjI)
    fix b assume b: "b < ?n"
    have cb: "coord out ''freq_r'' ! b = Re (?kr ! b)"
      using b by (simp add: co length_binned_agg)
    have ib: "item (data out) [b] = ?iso ! b * ?kr ! b" by (simp add: out_def)
    {
      assume e: "bin_cells ps fftdim nfactor b = []"
      show "coord out ''freq_r'' ! b = 0" unfolding cb kr[OF b] using e by simp
      show "item (data out) [b] = 0" unfolding ib kr[OF b] using e by simp
    }
    {
      assume ne: "bin_cells ps fftdim nfactor b \<noteq> []"
      show "coord out ''freq_r'' ! b
                = sum_list (map (radial ps fftdim) (bin_cells ps fftdim nfactor b))
                  / real (length (bin_cells ps fftdim nfactor b))"
        unfolding cb kr[OF b] using ne by simp
      show "item (data out) [b]
                = sum_list (map (spectrum_at ps fftdim) (bin_cells ps fftdim nfactor b))
                    / of_nat (length (bin_cells ps fftdim nfactor b))
                  * complex_of_real (sum_list (map (radial ps fftdim) (bin_cells ps fftdim nfactor b))
                                      / real (length (bin_cells ps fftdim nfactor b)))"
        unfolding ib kr[OF b] iso[OF b] using ne by (simp add: mean_def)
    }
  qed
  have sixteen: "length (coord ps (fftdim ! 0)) = 64 \<and> length (coord ps (fftdim ! 1)) = 64 \<and> nfactor = 4
           \<longrightarrow> shape (data out) = [16]"
    by (simp add: s n_bins_def)
  show ?thesis using r d s l cells means sixteen by blast
qed

text \<open>The theorem on a spectrum of 64 by 64 cells with \<open>nfactor = 4\<close>.\<close>

theorem isotropize_bin_averages_witness:
  "two_dimensional spectrum64 [''freq_y'', ''freq_x'']
   \<and> n_bins spectrum64 [''freq_y'', ''freq_x''] 4 = 16
   \<and> (\<exists>out. isotropize spectrum64 [''freq_y'', ''freq_x''] 4 = Inr out
         \<and> dims out = [''freq_r''] \<and> shape (data out) = [16]
         \<and> length (coord out ''freq_r'') = 16)"
proof -
  have td: "two_dimensional spectrum64 [''freq_y'', ''freq_x'']"
    by (simp add: two_dimensional_def spectrum64_def grid_def)
  have nb: "n_bins spectrum64 [''freq_y'', ''freq_x''] 4 = 16"
    by (simp add: n_bins_def coord_def spectrum64_def grid_def)
  have "1 \<le> (4::nat)"
    and "4 \<le> min (length (coord spectrum64 ([''freq_y'', ''freq_x''] ! 1)))
                 (length (coord spectrum64 ([''freq_y'', ''freq_x''] ! 0)))"
    by (simp_all add: coord_def spectrum64_def grid_def)
  from isotropize_bin_averages[OF td this]
  obtain out where "isotropize spectrum64 [''freq_y'', ''freq_x''] 4 = Inr out"
    "dims out = [''freq_r'']" "shape (data out) = [n_bins spectrum64 [''freq_y'', ''freq_x''] 4]"
    "length (coord out ''freq_r'') = n_bins spectrum64 [''freq_y'', ''freq_x''] 4"
    by blast
  then show ?thesis using td nb by auto
qed

text \<open>
  Claim C7 as stated covers every two-dimensional spectrum. A spectrum of 2 by 2 cells
  with the default \<open>nfactor = 4\<close> has \<open>int(2 / 4) = 0\<close> bins, which \<open>pandas.cut\<close> refuses:
  the call raises and nothing is averaged.
\<close>

theorem isotropize_bins_counterexample:
  "two_dimensional spectrum4 [''freq_y'', ''freq_x'']
   \<and> n_bins spectrum4 [''freq_y'', ''freq_x''] 4 = 0
   \<and> isotropize spectrum4 [''freq_y'', ''freq_x''] 4 = Inl BinsError"
  by (simp add: two_dimensional_def n_bins_def isotropize_def spectrum4_def grid_def coord_def
      pd_cut_def bindE_def Let_def)

text \<open>The isotropic average of a spectrum of 2 by 2 cells with \<open>nfactor = 1\<close>, evaluated.\<close>

lemma sqrt_squares: "sqrt 16 = 4" "sqrt 9 = 3" "sqrt 25 = 5"
  using real_sqrt_abs[of 4] real_sqrt_abs[of 3] real_sqrt_abs[of 5] by simp_all

lemma isotropize_example:
  "\<exists>out. isotropize spectrum4 [''freq_y'', ''freq_x''] 1 = Inr out
     \<and> dims out = [''freq_r''] \<and> shape (data out) = [2]
     \<and> coord out ''freq_r'' = [0, 4]
     \<and> item (data out) [0] = 0 \<and> item (data out) [1] = 12"
  by (simp add: isotropize_def spectrum4_def grid_def coord_def cells_def pd_cut_def cut_edges_def
      cut_code_def linspace_def list_min_def list_max_def binned_agg_def members_def mean_def
      cell_index_def bindE_def Let_def sqrt_squares upt_conv_Cons)

section \<open>C3: the dimension check of the cross spectrum\<close>

text \<open>
  Claim C3, as amended. When a forward transform fails, \<open>cross_spectrum\<close> fails with
  the error of that transform, the first array's before the second's. When both
  forward transforms return, \<open>cross_spectrum\<close> raises the dimension-mismatch error
  exactly when the two transforms differ in their tuples of dimension names; their
  shapes are not compared. When the two transforms carry the same labels, and no new
  name of a transformed dimension is a dimension of the first input or contains
  \<open>segment\<close>, it returns the product of the first transform with the conjugate of the
  second, doubled when there is a real axis, scaled by the product of the frequency
  spacings for \<open>density\<close>, by its square for \<open>spectrum\<close>, unscaled for \<open>false_density\<close>,
  and raises the invalid-scaling error for any other scaling in force.
\<close>

theorem cross_spectrum_mismatch_and_product:
  "(dft det a dm0 rd (kw\<lparr>true_amplitude := True\<rparr>) = Inl e
     \<longrightarrow> cross_spectrum det a b dm0 rd sc dens kw = Inl e)
   \<and> (dft det a dm0 rd (kw\<lparr>true_amplitude := True\<rparr>) = Inr A
      \<and> dft det b dm0 rd (kw\<lparr>true_amplitude := True\<rparr>) = Inl e
     \<longrightarrow> cross_spectrum det a b dm0 rd sc dens kw = Inl e)
   \<and> (dft det a dm0 rd (kw\<lparr>true_amplitude := True\<rparr>) = Inr A
      \<and> dft det b dm0 rd (kw\<lparr>true_amplitude := True\<rparr>) = Inr B
     \<longrightarrow> (cross_spectrum det a b dm0 rd sc dens kw = Inl MismatchedDimensionsError
            \<longleftrightarrow> dims A \<noteq> dims B))
   \<and> (resolve_dim a dm0 rd = Inr dm
      \<and> dft det a dm0 rd (kw\<lparr>true_amplitude := True\<rparr>) = Inr A
      \<and> dft det b dm0 rd (kw\<lparr>true_amplitude := True\<rparr>) = Inr B
      \<and> same_labels A B
      \<and> (\<forall>d \<in> set dm. new_name (prefix kw) d \<notin> set (dims a)
                      \<and> \<not> contains ''segment'' (new_name (prefix kw) d))
     \<longrightarrow>
       (effective_scaling sc dens = ''density'' \<longrightarrow>
          cross_scaled_by (prod_list (frequency_spacings a dm (prefix kw) A)) rd A B
            (cross_spectrum det a b dm0 rd sc dens kw))
     \<and> (effective_scaling sc dens = ''spectrum'' \<longrightarrow>
          cross_scaled_by ((prod_list (frequency_spacings a dm (prefix kw) A))\<^sup>2) rd A B
            (cross_spectrum det a b dm0 rd sc dens kw))
     \<and> (effective_scaling sc dens = ''false_density'' \<longrightarrow>
          cross_scaled_by 1 rd A B (cross_spectrum det a b dm0 rd sc dens kw))
     \<and> (effective_scaling sc dens \<notin> {''density'', ''spectrum'', ''false_density''} \<longrightarrow>
          cross_spectrum det a b dm0 rd sc dens kw = Inl (InvalidScalingError (effective_scaling sc dens))))"
proof (intro conjI impI)
  assume "dft det a dm0 rd (kw\<lparr>true_amplitude := True\<rparr>) = Inl e"
  then show "cross_spectrum det a b dm0 rd sc dens kw = Inl e"
    by (simp add: cross_spectrum_def Let_def bindE_def)
next
  assume "dft det a dm0 rd (kw\<lparr>true_amplitude := True\<rparr>) = Inr A
      \<and> dft det b dm0 rd (kw\<lparr>true_amplitude := True\<rparr>) = Inl e"
  then show "cross_spectrum det a b dm0 rd sc dens kw = Inl e"
    by (simp add: cross_spectrum_def Let_def bindE_def)
next
  assume "dft det a dm0 rd (kw\<lparr>true_amplitude := True\<rparr>) = Inr A
      \<and> dft det b dm0 rd (kw\<lparr>true_amplitude := True\<rparr>) = Inr B"
  then show "cross_spectrum det a b dm0 rd sc dens kw = Inl MismatchedDimensionsError
            \<longleftrightarrow> dims A \<noteq> dims B"
    using cross_spectrum_mismatch_iff by blast
next
  assume h: "resolve_dim a dm0 rd = Inr dm
      \<and> dft det a dm0 rd (kw\<lparr>true_amplitude := True\<rparr>) = Inr A
      \<and> dft det b dm0 rd (kw\<lparr>true_amplitude := True\<rparr>) = Inr B
      \<and> same_labels A B
      \<and> (\<forall>d \<in> set dm. new_name (prefix kw) d \<notin> set (dims a)
                      \<and> \<not> contains ''segment'' (new_name (prefix kw) d))"
  then obtain cs where it: "\<forall>idx. valid_index (shape (data A)) idx \<longrightarrow>
                   item (data cs) idx = item (data A) idx * cnj (item (data B) idx)
                      * complex_of_real (if rd = None then 1 else 2)"
     and d: "dims cs = dims A" "shape (data cs) = shape (data A)"
     and c: "cross_spectrum det a b dm0 rd sc dens kw =
         (let fs = prod_list (frequency_spacings a dm (prefix kw) A);
              s = effective_scaling sc dens
          in if s = ''density'' then Inr (map_data (\<lambda>z. z * complex_of_real fs) cs)
             else if s = ''spectrum'' then Inr (map_data (\<lambda>z. z * complex_of_real (fs\<^sup>2)) cs)
             else if s = ''false_density'' then Inr cs
             else Inl (InvalidScalingError s))"
    using cross_spectrum_product[of a dm0 rd dm det kw A b B sc dens] by blast
  {
    assume "effective_scaling sc dens = ''density''"
    then show "cross_scaled_by (prod_list (frequency_spacings a dm (prefix kw) A)) rd A B
            (cross_spectrum det a b dm0 rd sc dens kw)"
      using c d it by (simp add: cross_scaled_by_def Let_def)
  }
  {
    assume "effective_scaling sc dens = ''spectrum''"
    then show "cross_scaled_by ((prod_list (frequency_spacings a dm (prefix kw) A))\<^sup>2) rd A B
            (cross_spectrum det a b dm0 rd sc dens kw)"
      using c d it by (simp add: cross_scaled_by_def Let_def)
  }
  {
    assume "effective_scaling sc dens = ''false_density''"
    then show "cross_scaled_by 1 rd A B (cross_spectrum det a b dm0 rd sc dens kw)"
      using c d it by (simp add: cross_scaled_by_def Let_def)
  }
  {
    assume "effective_scaling sc dens \<notin> {''density'', ''spectrum'', ''false_density''}"
    then show "cross_spectrum det a b dm0 rd sc dens kw = Inl (InvalidScalingError (effective_scaling sc dens))"
      using c by (simp add: Let_def)
  }
qed


text \<open>
  The theorem on four-point lines: a pair on the dimensions \<open>x\<close> and \<open>y\<close>, which is
  rejected, and a pair on \<open>x\<close>, once for each scaling.
\<close>

theorem cross_spectrum_mismatch_and_product_witness:
  "(\<exists>A B. dft no_detrend (line ''x'' [-2, -1, 0, 1] [1, 2, 3, 4]) None None (defaults\<lparr>true_amplitude := True\<rparr>) = Inr A
      \<and> dft no_detrend (line ''y'' [-2, -1, 0, 1] [1, 2, 3, 4]) None None (defaults\<lparr>true_amplitude := True\<rparr>) = Inr B
      \<and> dims A \<noteq> dims B)
   \<and> cross_spectrum no_detrend (line ''x'' [-2, -1, 0, 1] [1, 2, 3, 4]) (line ''y'' [-2, -1, 0, 1] [1, 2, 3, 4])
        None None ''density'' None defaults = Inl MismatchedDimensionsError
   \<and> resolve_dim (line ''x'' [-2, -1, 0, 1] [1, 2, 3, 4]) None None = Inr [''x'']
   \<and> new_name (prefix defaults) ''x'' \<notin> set (dims (line ''x'' [-2, -1, 0, 1] [1, 2, 3, 4]))
   \<and> \<not> contains ''segment'' (new_name (prefix defaults) ''x'')
   \<and> (\<exists>A B. dft no_detrend (line ''x'' [-2, -1, 0, 1] [1, 2, 3, 4]) None None (defaults\<lparr>true_amplitude := True\<rparr>) = Inr A
      \<and> dft no_detrend (line ''x'' [-2, -1, 0, 1] [4, 3, 2, 1]) None None (defaults\<lparr>true_amplitude := True\<rparr>) = Inr B
      \<and> same_labels A B
      \<and> cross_scaled_by
           (prod_list (frequency_spacings (line ''x'' [-2, -1, 0, 1] [1, 2, 3, 4]) [''x''] (prefix defaults) A))
           None A B
           (cross_spectrum no_detrend (line ''x'' [-2, -1, 0, 1] [1, 2, 3, 4]) (line ''x'' [-2, -1, 0, 1] [4, 3, 2, 1])
              None None ''density'' None defaults)
      \<and> cross_scaled_by
           ((prod_list (frequency_spacings (line ''x'' [-2, -1, 0, 1] [1, 2, 3, 4]) [''x''] (prefix defaults) A))\<^sup>2)
           None A B
           (cross_spectrum no_detrend (line ''x'' [-2, -1, 0, 1] [1, 2, 3, 4]) (line ''x'' [-2, -1, 0, 1] [4, 3, 2, 1])
              None None ''spectrum'' None defaults)
      \<and> cross_scaled_by 1 None A B
           (cross_spectrum no_detrend (line ''x'' [-2, -1, 0, 1] [1, 2, 3, 4]) (line ''x'' [-2, -1, 0, 1] [4, 3, 2, 1])
              None None ''density'' (Some False) defaults))
   \<and> cross_spectrum no_detrend (line ''x'' [-2, -1, 0, 1] [1, 2, 3, 4]) (line ''x'' [-2, -1, 0, 1] [4, 3, 2, 1])
        None None ''bogus'' None defaults = Inl (InvalidScalingError ''bogus'')"
proof -
  let ?a = "line ''x'' [-2, -1, 0, 1] [1, 2, 3, 4]"
  let ?b = "line ''x'' [-2, -1, 0, 1] [4, 3, 2, 1]"
  let ?c = "line ''y'' [-2, -1, 0, 1] [1, 2, 3, 4]"
  let ?kw = "defaults\<lparr>true_amplitude := True\<rparr>"
  obtain A where tA: "dft no_detrend ?a None None ?kw = Inr A" using ex4 by blast
  obtain B where tB: "dft no_detrend ?b None None ?kw = Inr B" using ex4 by blast
  obtain C where tC: "dft no_detrend ?c None None ?kw = Inr C" using ex4 by blast
  have ra: "resolve_dim ?a None None = Inr [''x'']" by (simp add: resolve_dim_def line_def)
  have rc: "resolve_dim ?c None None = Inr [''y'']" by (simp add: resolve_dim_def line_def)
  have dA: "dims A = [''freq_x'']" using dft_dims[OF tA ra] by (simp add: defaults_def new_name_def line_def)
  have dC: "dims C = [''freq_y'']" using dft_dims[OF tC rc] by (simp add: defaults_def new_name_def line_def)
  have ne: "dims A \<noteq> dims C" using dA dC by simp
  have h2: "\<forall>d \<in> set [''x'']. new_name (prefix defaults) d \<notin> set (dims ?a)
                      \<and> \<not> contains ''segment'' (new_name (prefix defaults) d)"
    by (simp add: new_name_def defaults_def line_def)
  have sl: "same_labels A B"
    using tA tB by (auto simp: eval_defs same_labels_def)
  have c0: "cross_spectrum no_detrend ?a ?c None None ''density'' None defaults = Inl MismatchedDimensionsError"
    using cross_spectrum_mismatch_and_product[where det = no_detrend and a = ?a and b = ?c
        and ?dm0.0 = None and rd = None and kw = defaults and A = A and B = C
        and sc = "''density''" and dens = None, THEN conjunct2, THEN conjunct2, THEN conjunct1] tA tC ne
    by blast
  have e: "effective_scaling ''density'' None = ''density''"
      "effective_scaling ''spectrum'' None = ''spectrum''"
      "effective_scaling ''density'' (Some False) = ''false_density''"
      "effective_scaling ''bogus'' None = ''bogus''"
    by (simp_all add: effective_scaling_def)
  have c1: "cross_scaled_by (prod_list (frequency_spacings ?a [''x''] (prefix defaults) A)) None A B
             (cross_spectrum no_detrend ?a ?b None None ''density'' None defaults)"
    using cross_spectrum_mismatch_and_product[where det = no_detrend and a = ?a and b = ?b
        and ?dm0.0 = None and rd = None and kw = defaults and A = A and B = B and dm = "[''x'']"
        and sc = "''density''" and dens = None, THEN conjunct2, THEN conjunct2, THEN conjunct2] ra h2 tA tB sl e(1) by blast
  have c2: "cross_scaled_by ((prod_list (frequency_spacings ?a [''x''] (prefix defaults) A))\<^sup>2) None A B
             (cross_spectrum no_detrend ?a ?b None None ''spectrum'' None defaults)"
    using cross_spectrum_mismatch_and_product[where det = no_detrend and a = ?a and b = ?b
        and ?dm0.0 = None and rd = None and kw = defaults and A = A and B = B and dm = "[''x'']"
        and sc = "''spectrum''" and dens = None, THEN conjunct2, THEN conjunct2, THEN conjunct2] ra h2 tA tB sl e(2) by blast
  have c3: "cross_scaled_by 1 None A B
             (cross_spectrum no_detrend ?a ?b None None ''density'' (Some False) defaults)"
    using cross_spectrum_mismatch_and_product[where det = no_detrend and a = ?a and b = ?b
        and ?dm0.0 = None and rd = None and kw = defaults and A = A and B = B and dm = "[''x'']"
        and sc = "''density''" and dens = "Some False", THEN conjunct2, THEN conjunct2, THEN conjunct2] ra h2 tA tB sl e(3) by blast
  have nb: "''bogus'' \<notin> {''density'', ''spectrum'', ''false_density''}" by simp
  have c4: "cross_spectrum no_detrend ?a ?b None None ''bogus'' None defaults
        = Inl (InvalidScalingError ''bogus'')"
    using cross_spectrum_mismatch_and_product[where det = no_detrend and a = ?a and b = ?b
        and ?dm0.0 = None and rd = None and kw = defaults and A = A and B = B and dm = "[''x'']"
        and sc = "''bogus''" and dens = None, THEN conjunct2, THEN conjunct2, THEN conjunct2] ra h2 tA tB sl nb unfolding e(4) by blast
  have h2': "new_name (prefix defaults) ''x'' \<notin> set (dims ?a)"
      "\<not> contains ''segment'' (new_name (prefix defaults) ''x'')"
    using h2 by simp_all
  show ?thesis using tA tB tC ne c0 ra h2' sl c1 c2 c3 c4 by blast
qed


text \<open>
  Claim C3 as stated has every pair with different transformed shapes rejected. The
  check compares the names of the dimensions only: a line of two points and a line of
  four points on the same dimension have transforms of the shapes \<open>[2]\<close> and \<open>[4]\<close>, and
  \<open>cross_spectrum\<close> returns a result for them.
\<close>

theorem cross_spectrum_mismatch_counterexample:
  "\<not> isl (cross_spectrum no_detrend ones2 ones4 None None ''density'' None defaults)
   \<and> map_sum id (\<lambda>r. shape (data r)) (dft no_detrend ones2 None None (defaults\<lparr>true_amplitude := True\<rparr>)) = Inr [2]
   \<and> map_sum id (\<lambda>r. shape (data r)) (dft no_detrend ones4 None None (defaults\<lparr>true_amplitude := True\<rparr>)) = Inr [4]"
  by (simp add: eval_defs cross_eval)

section \<open>The forward transform with a real axis\<close>

lemma index_of_map_inj:
  "inj_on f (insert x (set xs)) \<Longrightarrow> index_of (map f xs) (f x) = index_of xs x"
proof (induction xs)
  case Nil
  then show ?case by simp
next
  case (Cons y ys)
  have i: "inj_on f (insert x (set ys))"
    using Cons.prems by (rule inj_on_subset) auto
  have "f y = f x \<longleftrightarrow> y = x" using Cons.prems by (auto simp: inj_on_def)
  then show ?case using Cons.IH[OF i] by simp
qed

lemma mapE_get_axis_num:
  "mapE (get_axis_num da) dm = Inr axes \<Longrightarrow> axes = map (index_of (dims da)) dm \<and> set dm \<subseteq> set (dims da)"
proof (induction dm arbitrary: axes)
  case Nil
  then show ?case by simp
next
  case (Cons d ds)
  then show ?case
    by (auto simp: bindE_Inr_iff get_axis_num_def split: if_splits)
qed

lemma dft_check_Inr:
  "dft_check tol da d = Inr v \<Longrightarrow>
     v = (\<bar>coord da d ! 1 - coord da d ! 0\<bar>, lag_coord (coord da d)) \<and> 2 \<le> length (coord da d)"
  by (auto simp: dft_check_def Let_def diff_coord_def np_diff_def split: if_splits)

lemma mapE_dft_check:
  "mapE (dft_check tol da) dm = Inr checks \<Longrightarrow>
     checks = map (\<lambda>d. (\<bar>coord da d ! 1 - coord da d ! 0\<bar>, lag_coord (coord da d))) dm"
proof (induction dm arbitrary: checks)
  case Nil
  then show ?case by simp
next
  case (Cons d ds)
  then show ?case
    by (auto simp: bindE_Inr_iff dest: dft_check_Inr)
qed

lemma map_zip_replicate:
  "length xs = n \<Longrightarrow> map (\<lambda>(fn, Nx, dx). fn Nx dx) (zip (replicate n g) xs) = map (\<lambda>(Nx, dx). g Nx dx) xs"
  by (rule nth_equalityI) (auto simp: case_prod_beta)

lemma freq_real_snoc:
  "freq (map Nf (pre @ [r])) (map Df (pre @ [r])) (Some q) False
     = map (\<lambda>d. fftfreq (Nf d) (Df d)) pre @ [rfftfreq (Nf r) (Df r)]"
proof -
  have z: "zip (replicate (length pre) fftfreq @ [rfftfreq])
             (zip (map Nf pre @ [Nf r]) (map Df pre @ [Df r]))
           = zip (replicate (length pre) fftfreq) (zip (map Nf pre) (map Df pre))
             @ [(rfftfreq, Nf r, Df r)]"
    by (simp add: zip_append)
  have m: "map (\<lambda>(Nx, dx). fftfreq Nx dx) (zip (map Nf pre) (map Df pre))
           = map (\<lambda>d. fftfreq (Nf d) (Df d)) pre"
    by (rule nth_equalityI) simp_all
  show ?thesis
    unfolding freq_def Let_def
    by (simp add: z map_zip_replicate m)
qed

lemma new_dims_loop_lookup:
  "new_dims_loop w p ds (nc, ats, sw) = Inr (nc', ats', sw') \<Longrightarrow> inj_on (new_name p) (set ds)
     \<Longrightarrow> d \<in> set ds \<Longrightarrow> nc' (new_name p d) = w d"
proof (induction ds arbitrary: nc ats sw)
  case Nil
  then show ?case by simp
next
  case (Cons x xs)
  from Cons.prems(1) obtain k where k: "w x = Some k"
    and r: "new_dims_loop w p xs (nc(new_name p x \<mapsto> k), ats(new_name p x \<mapsto> k ! 1 - k ! 0),
                  sw(x \<mapsto> new_name p x)) = Inr (nc', ats', sw')"
    by (auto split: option.splits if_splits)
  have i: "inj_on (new_name p) (set xs)"
    using Cons.prems(2) by (rule inj_on_subset) auto
  show ?case
  proof (cases "d \<in> set xs")
    case True
    then show ?thesis using Cons.IH[OF r i] by simp
  next
    case False
    then have dx: "d = x" using Cons.prems(3) by simp
    have "new_name p x \<notin> new_name p ` set xs"
    proof
      assume "new_name p x \<in> new_name p ` set xs"
      then obtain y where y: "y \<in> set xs" "new_name p x = new_name p y" by auto
      then have "x = y" using Cons.prems(2) by (auto simp: inj_on_def)
      then show False using y(1) False dx by simp
    qed
    then have "nc' (new_name p x) = (nc(new_name p x \<mapsto> k)) (new_name p x)"
      using new_dims_loop_consistent[OF r, of "new_name p x"] by simp
    then show ?thesis using k dx by simp
  qed
qed

lemma zip_map_same: "zip xs (map f xs) = map (\<lambda>x. (x, f x)) xs"
  by (induction xs) simp_all

lemma new_dims_and_coords_lookup:
  assumes "new_dims_and_coords dm (map K dm) p = Inr (nc, ats, sw)"
    and "inj_on (new_name p) (set dm)" and "d \<in> set dm"
  shows "nc (new_name p d) = Some (K d)"
proof -
  have "map_of (rev (zip dm (map K dm))) d = Some (K d)"
    using assms(3) by (simp add: zip_map_same rev_map map_of_map_restrict)
  then show ?thesis
    using new_dims_loop_lookup[OF assms(1)[unfolded new_dims_and_coords_def] assms(2,3)] by simp
qed

lemma apply_phase_data:
  "apply_phase nc zs daft = Inr P \<Longrightarrow>
     data P = fold (\<lambda>(u, l). mul_along (index_of (dims daft) u) (phase_ramp (the (nc u)) l)) zs (data daft)
     \<and> dims P = dims daft \<and> coords P = coords daft"
proof (induction zs arbitrary: daft)
  case Nil
  then show ?case by simp
next
  case (Cons z zs)
  obtain u l where z: "z = (u, l)" by (cases z)
  from Cons.prems z obtain k where k: "nc u = Some k"
    and r: "apply_phase nc zs (daft\<lparr>data := mul_along (index_of (dims daft) u) (phase_ramp k l) (data daft)\<rparr>) = Inr P"
    by (auto split: option.splits)
  from Cons.IH[OF r] show ?case using z k by simp
qed

lemma fold_zip_map:
  "fold (\<lambda>(u, l). g u l) (zip (map f xs) (map h xs)) a = fold (\<lambda>x. g (f x) (h x)) xs a"
  by (induction xs arbitrary: a) simp_all

lemma fold_cong_set:
  "(\<And>x. x \<in> set xs \<Longrightarrow> f x = g x) \<Longrightarrow> fold f xs a = fold g xs a"
  by (induction xs arbitrary: a) simp_all

lemma shape_real_last:
  assumes "r \<in> set (dims da)" and "d \<in> set (dims da)"
  shows "shape (data (real_last da (Some r))) ! index_of (dims (real_last da (Some r))) d
         = shape (data da) ! index_of (dims da) d"
proof -
  let ?names = "filter (\<lambda>d. d \<noteq> r) (dims da) @ [r]"
  have d: "d \<in> set ?names" using assms by auto
  have l: "index_of ?names d < length ?names" using d by (rule index_of_less)
  have sh: "shape (data (real_last da (Some r)))
            = map (\<lambda>n. shape (data da) ! index_of (dims da) n) ?names"
    by (simp add: real_last_def transpose_xr_def transpose_nd_def comp_def)
  have dm: "dims (real_last da (Some r)) = ?names"
    by (simp add: real_last_def)
  show ?thesis
    unfolding sh dm nth_map[OF l] nth_index_of[OF d] ..
qed

lemma real_dft_stages:
  assumes R: "dft det da dm0 (Some r) kw = Inr out"
    and DM: "resolve_dim da dm0 (Some r) = Inr dm"
  shows "\<exists>pre prep. dm = pre @ [r] \<and> r \<notin> set pre \<and> r \<in> set (dims da) \<and> set dm \<subseteq> set (dims da)
     \<and> (if truthy (detrend kw) then det (real_last da (Some r)) dm (the (detrend kw))
         else Inr (real_last da (Some r))) = Inr prep
     \<and> dft_finish (Some r) kw (dims da) dm
          (map (\<lambda>d. shape (data da) ! index_of (dims da) d) dm)
          (map (\<lambda>d. \<bar>coord da d ! 1 - coord da d ! 0\<bar>) dm)
          (map (\<lambda>d. lag_coord (coord da d)) dm)
          (if window kw then apply_window prep dm else prep)
          (rfftn (map (index_of (filter (\<lambda>d. d \<noteq> r) (dims da) @ [r])) dm)
             (if true_phase kw
              then ifftshift_nd (map (index_of (filter (\<lambda>d. d \<noteq> r) (dims da) @ [r])) dm)
                     (data (if window kw then apply_window prep dm else prep))
              else data (if window kw then apply_window prep dm else prep))) = Inr out"
proof -
  have rin: "r \<in> set (dims da)" using resolve_dim_real[OF DM] by simp
  define pre where "pre = filter (\<lambda>d. d \<noteq> r) (case dm0 of None \<Rightarrow> dims da | Some ds \<Rightarrow> ds)"
  have dm: "dm = pre @ [r]"
    using DM rin by (simp add: resolve_dim_def Let_def pre_def)
  have rp: "r \<notin> set pre" by (simp add: pre_def)
  have sub: "set dm \<subseteq> set (dims da)" by (rule dft_Inr_dims_subset[OF R DM])
  have rdm: "r \<in> set dm" using dm by simp
  have sc: "stack_chunks da dm = Inl ChunksTypeError"
    using rin rdm by (auto simp: stack_chunks_def)
  let ?da' = "real_last da (Some r)"
  from R DM obtain da1 axis_num checks prep where
      b: "(if chunks_to_segments kw then stack_chunks da dm else Inr da) = Inr da1"
      and ax: "mapE (get_axis_num (real_last da1 (Some r))) dm = Inr axis_num"
      and ch: "mapE (dft_check (spacing_tol kw) (real_last da1 (Some r))) dm = Inr checks"
      and dt: "(if truthy (detrend kw) then det (real_last da1 (Some r)) dm (the (detrend kw))
               else Inr (real_last da1 (Some r))) = Inr prep"
      and fin: "dft_finish (Some r) kw (dims da1) dm
                 (map (\<lambda>n. shape (data (real_last da1 (Some r))) ! n) axis_num)
                 (map fst checks) (map snd checks)
                 (if window kw then apply_window prep dm else prep)
                 (dft_kernel (Some r) kw axis_num (data (if window kw then apply_window prep dm else prep)))
               = Inr out"
    unfolding dft_def by (auto simp: bindE_Inr_iff)
  have da1: "da1 = da" using b sc by (auto split: if_splits)
  have dd: "dims ?da' = filter (\<lambda>d. d \<noteq> r) (dims da) @ [r]" by (simp add: real_last_def)
  have axn: "axis_num = map (index_of (filter (\<lambda>d. d \<noteq> r) (dims da) @ [r])) dm"
    using mapE_get_axis_num[OF ax] unfolding da1 dd by simp
  have N: "map (\<lambda>n. shape (data ?da') ! n) axis_num
           = map (\<lambda>d. shape (data da) ! index_of (dims da) d) dm"
  proof -
    have "shape (data ?da') ! index_of (dims ?da') d = shape (data da) ! index_of (dims da) d"
      if "d \<in> set dm" for d
      using shape_real_last[OF rin] that sub by blast
    then show ?thesis unfolding axn dd[symmetric] by (simp add: comp_def)
  qed
  have co: "coord ?da' d = coord da d" if "d \<in> set dm" for d
    using coord_real_last[of "Some r" da d] rin that sub by auto
  have "checks = map (\<lambda>d. (\<bar>coord ?da' d ! 1 - coord ?da' d ! 0\<bar>, lag_coord (coord ?da' d))) dm"
    using mapE_dft_check[OF ch] unfolding da1 .
  then have chk: "checks = map (\<lambda>d. (\<bar>coord da d ! 1 - coord da d ! 0\<bar>, lag_coord (coord da d))) dm"
    using co by simp
  have c1: "map fst checks = map (\<lambda>d. \<bar>coord da d ! 1 - coord da d ! 0\<bar>) dm"
    and c2: "map snd checks = map (\<lambda>d. lag_coord (coord da d)) dm"
    unfolding chk by (simp_all add: comp_def)
  have ker: "dft_kernel (Some r) kw axis_num a
             = rfftn axis_num (if true_phase kw then ifftshift_nd axis_num a else a)" for a
    by (simp add: dft_kernel_def forced_shift_def)
  note dt' = dt[unfolded da1]
  note fin' = fin[unfolded da1 N c1 c2 ker, unfolded axn]
  show ?thesis
    apply (rule exI[of _ pre])
    apply (rule exI[of _ prep])
    apply (intro conjI)
         apply (rule dm)
        apply (rule rp)
       apply (rule rin)
      apply (rule sub)
     apply (rule dt')
    apply (rule fin')
    done
qed

lemma real_dft_finish_unfold:
  assumes fin: "dft_finish (Some r) kw rawdims (pre @ [r]) (map Nf (pre @ [r])) (map Df (pre @ [r]))
                  (map Lf (pre @ [r])) w f = Inr out"
    and rp: "r \<notin> set pre"
  shows "\<exists>nc ats sw daft.
       new_dims_and_coords (pre @ [r])
          (map (\<lambda>d. (if d = r then rfftfreq else fftfreq) (Nf d) (Df d)) (pre @ [r])) (prefix kw)
         = Inr (nc, ats, sw)
     \<and> set (pre @ [r]) \<subseteq> set (dims w)
     \<and> (if true_phase kw
         then apply_phase nc (zip (map (\<lambda>i. dims (relabel w f (pre @ [r]) (nc, ats, sw)) ! i)
                                     (map (index_of (dims w)) (pre @ [r])))
                                (map Lf (pre @ [r])))
                (relabel w f (pre @ [r]) (nc, ats, sw))
         else Inr (relabel w f (pre @ [r]) (nc, ats, sw))) = Inr daft
     \<and> out = transpose_xr
            (if true_amplitude kw
             then daft\<lparr>data := scale_nd (complex_of_real (prod_list (map Df (pre @ [r])))) (data daft)\<rparr>
             else daft) (swapped sw rawdims)"
proof -
  let ?dm = "pre @ [r]"
  have fr: "freq (map Nf ?dm) (map Df ?dm) (Some r) (forced_shift (Some r) kw)
            = map (\<lambda>d. (if d = r then rfftfreq else fftfreq) (Nf d) (Df d)) ?dm"
  proof -
    have "map (\<lambda>d. (if d = r then rfftfreq else fftfreq) (Nf d) (Df d)) pre
          = map (\<lambda>d. fftfreq (Nf d) (Df d)) pre"
      using rp by (intro map_cong) auto
    then show ?thesis
      unfolding forced_shift_def option.case freq_real_snoc by simp
  qed
  from fin obtain rl axes daft where
      c: "new_dims_and_coords ?dm (freq (map Nf ?dm) (map Df ?dm) (Some r) (forced_shift (Some r) kw)) (prefix kw) = Inr rl"
      and a: "mapE (get_axis_num w) ?dm = Inr axes"
      and p: "(if true_phase kw
            then apply_phase (fst rl) (zip (map (\<lambda>i. dims (relabel w f ?dm rl) ! i) axes) (map Lf ?dm))
                   (relabel w f ?dm rl)
            else Inr (relabel w f ?dm rl)) = Inr daft"
      and o: "out = transpose_xr
            (if true_amplitude kw
             then daft\<lparr>data := scale_nd (complex_of_real (prod_list (map Df ?dm))) (data daft)\<rparr>
             else daft) (swapped (snd (snd rl)) rawdims)"
    unfolding dft_finish_def bindE_Inr_iff by blast
  obtain nc ats sw where rl: "rl = (nc, ats, sw)" by (cases rl)
  note ax = mapE_get_axis_num[OF a]
  have ax1: "axes = map (index_of (dims w)) ?dm" and ax2: "set ?dm \<subseteq> set (dims w)"
    using ax by blast+
  note c' = c[unfolded fr rl]
  note p' = p[unfolded rl fst_conv ax1]
  note o' = o[unfolded rl snd_conv]
  show ?thesis
    apply (rule exI[of _ nc])
    apply (rule exI[of _ ats])
    apply (rule exI[of _ sw])
    apply (rule exI[of _ daft])
    apply (intro conjI)
       apply (rule c')
      apply (rule ax2)
     apply (rule p')
    apply (rule o')
    done
qed

lemma real_dft_finish_coords:
  assumes fin: "dft_finish (Some r) kw rawdims (pre @ [r]) (map Nf (pre @ [r])) (map Df (pre @ [r]))
                  (map Lf (pre @ [r])) w f = Inr out"
    and rp: "r \<notin> set pre"
    and inj: "inj_on (new_name (prefix kw)) (set (pre @ [r]))"
    and fresh: "new_name (prefix kw) d \<notin> set (pre @ [r])"
    and d: "d \<in> set (pre @ [r])"
  shows "coords out (new_name (prefix kw) d) = Some ((if d = r then rfftfreq else fftfreq) (Nf d) (Df d))"
proof -
  let ?dm = "pre @ [r]"
  let ?K = "\<lambda>d. (if d = r then rfftfreq else fftfreq) (Nf d) (Df d)"
  from real_dft_finish_unfold[OF fin rp] obtain nc ats sw daft where
      c: "new_dims_and_coords ?dm (map ?K ?dm) (prefix kw) = Inr (nc, ats, sw)"
      and p: "(if true_phase kw
         then apply_phase nc (zip (map (\<lambda>i. dims (relabel w f ?dm (nc, ats, sw)) ! i)
                                     (map (index_of (dims w)) ?dm)) (map Lf ?dm))
                (relabel w f ?dm (nc, ats, sw))
         else Inr (relabel w f ?dm (nc, ats, sw))) = Inr daft"
      and o: "out = transpose_xr
            (if true_amplitude kw
             then daft\<lparr>data := scale_nd (complex_of_real (prod_list (map Df ?dm))) (data daft)\<rparr>
             else daft) (swapped sw rawdims)"
    by blast
  have n: "nc (new_name (prefix kw) d) = Some (?K d)"
    by (rule new_dims_and_coords_lookup[OF c inj d])
  have "coords daft = coords (relabel w f ?dm (nc, ats, sw))"
    using p by (auto split: if_splits dest: apply_phase_data)
  then have "coords out = coords (relabel w f ?dm (nc, ats, sw))"
    using o by (simp add: transpose_xr_def)
  moreover have "coords (relabel w f ?dm (nc, ats, sw)) (new_name (prefix kw) d) = Some (?K d)"
    using n fresh by (simp add: relabel_def restrict_map_def map_add_def)
  ultimately show ?thesis by simp
qed

lemma real_dft_finish_data:
  assumes fin: "dft_finish (Some r) kw rawdims (pre @ [r]) (map Nf (pre @ [r])) (map Df (pre @ [r]))
                  (map Lf (pre @ [r])) w f = Inr out"
    and rp: "r \<notin> set pre"
    and inj: "inj_on (new_name (prefix kw)) (set (pre @ [r]))"
    and fresh: "\<forall>d \<in> set (pre @ [r]). new_name (prefix kw) d \<notin> set (dims w)"
    and raw: "set rawdims \<subseteq> set (dims w)"
  shows "data out = transpose_nd (map (index_of (dims w)) rawdims)
           ((if true_amplitude kw
             then scale_nd (complex_of_real (prod_list (map Df (pre @ [r])))) else (\<lambda>a. a))
            (if true_phase kw
             then fold (\<lambda>d. mul_along (index_of (dims w) d)
                        (phase_ramp ((if d = r then rfftfreq else fftfreq) (Nf d) (Df d)) (Lf d)))
                    (pre @ [r]) f
             else f))"
proof -
  let ?dm = "pre @ [r]"
  let ?p = "prefix kw"
  let ?K = "\<lambda>d. (if d = r then rfftfreq else fftfreq) (Nf d) (Df d)"
  from real_dft_finish_unfold[OF fin rp] obtain nc ats sw daft where
      c: "new_dims_and_coords ?dm (map ?K ?dm) ?p = Inr (nc, ats, sw)"
      and sub: "set ?dm \<subseteq> set (dims w)"
      and p: "(if true_phase kw
         then apply_phase nc (zip (map (\<lambda>i. dims (relabel w f ?dm (nc, ats, sw)) ! i)
                                     (map (index_of (dims w)) ?dm)) (map Lf ?dm))
                (relabel w f ?dm (nc, ats, sw))
         else Inr (relabel w f ?dm (nc, ats, sw))) = Inr daft"
      and o: "out = transpose_xr
            (if true_amplitude kw
             then daft\<lparr>data := scale_nd (complex_of_real (prod_list (map Df ?dm))) (data daft)\<rparr>
             else daft) (swapped sw rawdims)"
    by blast
  define nn where "nn = (\<lambda>d. case sw d of Some n \<Rightarrow> n | None \<Rightarrow> d)"
  have sw: "sw d = (if d \<in> set ?dm then Some (new_name ?p d) else None)" for d
    using new_dims_and_coords_swap[OF c, of d] by simp
  have nn: "nn d = (if d \<in> set ?dm then new_name ?p d else d)" for d
    by (simp add: nn_def sw)
  have inn: "inj_on nn (set (dims w))"
  proof (rule inj_onI)
    fix x y assume x: "x \<in> set (dims w)" and y: "y \<in> set (dims w)" and e: "nn x = nn y"
    show "x = y"
    proof (cases "x \<in> set ?dm")
      case True
      note xt = True
      show ?thesis
      proof (cases "y \<in> set ?dm")
        case True
        then show ?thesis using e xt inj by (simp add: nn inj_on_def del: set_append)
      next
        case False
        then have "new_name ?p x = y" using e xt by (simp add: nn del: set_append)
        then show ?thesis using fresh xt y by blast
      qed
    next
      case False
      note xf = False
      show ?thesis
      proof (cases "y \<in> set ?dm")
        case True
        then have "new_name ?p y = x" using e xf by (simp add: nn del: set_append)
        then show ?thesis using fresh True x by blast
      next
        case False
        then show ?thesis using e xf by (simp add: nn del: set_append)
      qed
    qed
  qed
  let ?rel = "relabel w f ?dm (nc, ats, sw)"
  have dr: "dims ?rel = map nn (dims w)" by (simp add: relabel_def nn_def)
  have dtr: "data ?rel = f" by (simp add: relabel_def)
  have idx: "index_of (map nn (dims w)) (nn d) = index_of (dims w) d" if "d \<in> set (dims w)" for d
  proof -
    have "insert d (set (dims w)) = set (dims w)" using that by auto
    then show ?thesis using index_of_map_inj[of nn d "dims w"] inn by simp
  qed
  have names: "map (\<lambda>i. dims ?rel ! i) (map (index_of (dims w)) ?dm) = map (new_name ?p) ?dm"
  proof -
    have el: "dims ?rel ! index_of (dims w) d = new_name ?p d" if "d \<in> set ?dm" for d
    proof -
      have dw: "d \<in> set (dims w)" using that sub by blast
      have "dims ?rel ! index_of (dims w) d = nn (dims w ! index_of (dims w) d)"
        unfolding dr using index_of_less[OF dw] by simp
      also have "\<dots> = nn d" by (simp only: nth_index_of[OF dw])
      also have "\<dots> = new_name ?p d" using that by (simp add: nn del: set_append)
      finally show ?thesis .
    qed
    have "map ((\<lambda>i. dims ?rel ! i) \<circ> index_of (dims w)) ?dm = map (new_name ?p) ?dm"
      by (rule map_cong[OF refl]) (simp only: comp_def el)
    then show ?thesis by (simp only: map_map)
  qed
  let ?ph = "fold (\<lambda>d. mul_along (index_of (dims w) d) (phase_ramp (?K d) (Lf d))) ?dm f"
  have dd: "dims daft = map nn (dims w)"
    using p dr by (auto split: if_splits dest: apply_phase_data)
  have dat: "data daft = (if true_phase kw then ?ph else f)"
  proof (cases "true_phase kw")
    case False
    then show ?thesis using p dtr by simp
  next
    case True
    then have ap: "apply_phase nc (zip (map (new_name ?p) ?dm) (map Lf ?dm)) ?rel = Inr daft"
      using p unfolding names by simp
    have "data daft = fold (\<lambda>(u, l). mul_along (index_of (dims ?rel) u) (phase_ramp (the (nc u)) l))
                        (zip (map (new_name ?p) ?dm) (map Lf ?dm)) f"
      using apply_phase_data[OF ap] dtr by simp
    also have "\<dots> = fold (\<lambda>d. mul_along (index_of (dims ?rel) (new_name ?p d))
                                (phase_ramp (the (nc (new_name ?p d))) (Lf d))) ?dm f"
      by (rule fold_zip_map)
    also have "\<dots> = ?ph"
    proof (rule fold_cong_set)
      fix d assume d: "d \<in> set ?dm"
      then have dw: "d \<in> set (dims w)" using sub by blast
      have "new_name ?p d = nn d" using d by (simp add: nn del: set_append)
      then have i: "index_of (dims ?rel) (new_name ?p d) = index_of (dims w) d"
        unfolding dr using idx[OF dw] by simp
      have k: "nc (new_name ?p d) = Some (?K d)"
        by (rule new_dims_and_coords_lookup[OF c inj d])
      show "mul_along (index_of (dims ?rel) (new_name ?p d)) (phase_ramp (the (nc (new_name ?p d))) (Lf d))
            = mul_along (index_of (dims w) d) (phase_ramp (?K d) (Lf d))"
        unfolding i k by simp
    qed
    finally show ?thesis using True by simp
  qed
  have perm: "map (index_of (map nn (dims w))) (swapped sw rawdims) = map (index_of (dims w)) rawdims"
  proof -
    have "swapped sw rawdims = map nn rawdims" by (simp add: swapped_def nn_def)
    moreover have "index_of (map nn (dims w)) (nn d) = index_of (dims w) d" if "d \<in> set rawdims" for d
      using idx that raw by blast
    ultimately show ?thesis by simp
  qed
  show ?thesis
    unfolding o using dd dat perm by (simp add: transpose_xr_def)
qed

lemma dims_apply_window [simp]: "dims (apply_window da dm) = dims da"
  by (simp add: apply_window_def)

lemma real_dft_result:
  assumes R: "dft det da dm0 (Some r) kw = Inr out"
    and DM: "resolve_dim da dm0 (Some r) = Inr dm"
    and inj: "inj_on (new_name (prefix kw)) (set dm)"
    and fresh: "\<forall>d \<in> set dm. new_name (prefix kw) d \<notin> set (dims da)"
  shows "(\<forall>d \<in> set dm. coords out (new_name (prefix kw) d) = Some (kernel_order da r d))
     \<and> (\<exists>prep. (if truthy (detrend kw) then det (real_last da (Some r)) dm (the (detrend kw))
                 else Inr (real_last da (Some r))) = Inr prep
           \<and> (dims prep = dims (real_last da (Some r)) \<longrightarrow> data out = real_transform kw da r dm prep))"
proof -
  let ?Nf = "\<lambda>d. shape (data da) ! index_of (dims da) d"
  let ?Df = "\<lambda>d. \<bar>coord da d ! 1 - coord da d ! 0\<bar>"
  let ?Lf = "\<lambda>d. lag_coord (coord da d)"
  let ?D = "filter (\<lambda>d. d \<noteq> r) (dims da) @ [r]"
  from real_dft_stages[OF R DM] obtain pre prep where
      dm: "dm = pre @ [r]" and rp: "r \<notin> set pre" and rin: "r \<in> set (dims da)"
      and sub: "set dm \<subseteq> set (dims da)"
      and dt: "(if truthy (detrend kw) then det (real_last da (Some r)) dm (the (detrend kw))
         else Inr (real_last da (Some r))) = Inr prep"
      and fin: "dft_finish (Some r) kw (dims da) dm (map ?Nf dm) (map ?Df dm) (map ?Lf dm)
          (if window kw then apply_window prep dm else prep)
          (rfftn (map (index_of ?D) dm)
             (if true_phase kw
              then ifftshift_nd (map (index_of ?D) dm)
                     (data (if window kw then apply_window prep dm else prep))
              else data (if window kw then apply_window prep dm else prep))) = Inr out"
    by blast
  define w where "w = (if window kw then apply_window prep dm else prep)"
  note fin' = fin[folded w_def]
  have co: "\<forall>d \<in> set dm. coords out (new_name (prefix kw) d) = Some (kernel_order da r d)"
  proof
    fix d assume d: "d \<in> set dm"
    have f: "new_name (prefix kw) d \<notin> set dm" using fresh sub d by blast
    show "coords out (new_name (prefix kw) d) = Some (kernel_order da r d)"
      using real_dft_finish_coords[OF fin'[unfolded dm] rp inj[unfolded dm] f[unfolded dm] d[unfolded dm]]
      by (simp add: kernel_order_def)
  qed
  have dat: "data out = real_transform kw da r dm prep" if dp: "dims prep = dims (real_last da (Some r))"
  proof -
    have dw: "dims w = ?D" using dp by (simp add: real_last_def w_def)
    have sD: "set ?D = set (dims da)" using rin by auto
    have fr: "\<forall>d \<in> set (pre @ [r]). new_name (prefix kw) d \<notin> set (dims w)"
      using fresh unfolding dw sD dm .
    have raw: "set (dims da) \<subseteq> set (dims w)" unfolding dw sD by simp
    note r = real_dft_finish_data[OF fin'[unfolded dm] rp inj[unfolded dm] fr raw, folded dm, unfolded dw]
    show ?thesis
      unfolding r real_transform_def Let_def kernel_order_def w_def
      by (cases "true_phase kw"; cases "true_amplitude kw") simp_all
  qed
  show ?thesis using co dt dat by blast
qed

section \<open>C2: the shift of a real transform\<close>

text \<open>
  Claim C2, as amended. In a forward transform with a real axis, \<open>shift\<close> is switched
  off for the whole call. The result is that of the same call with \<open>shift = False\<close>.
  When the call returns (and the new names of the transformed dimensions are pairwise
  different and are no dimensions of the input), no transformed axis, real or not, has
  its frequency bins or its kernel output reordered: the coordinate of every
  transformed dimension is in the order of the kernel, \<open>rfftfreq\<close> for the real axis and
  \<open>fftfreq\<close> for the others, never rolled into ascending order, and the items are those
  of \<open>rfftn\<close> on the input as the detrending step leaves it (when that step keeps the
  dimensions), with no roll after the kernel.
\<close>

theorem real_dft_never_shifts:
  "dft det da dm0 (Some r) (kw\<lparr>shift := s\<rparr>) = dft det da dm0 (Some r) (kw\<lparr>shift := False\<rparr>)
   \<and> (dft det da dm0 (Some r) kw = Inr out \<and> resolve_dim da dm0 (Some r) = Inr dm
        \<and> inj_on (new_name (prefix kw)) (set dm)
        \<and> (\<forall>d \<in> set dm. new_name (prefix kw) d \<notin> set (dims da))
      \<longrightarrow> (\<forall>d \<in> set dm. coords out (new_name (prefix kw) d) = Some (kernel_order da r d))
        \<and> (\<exists>prep. (if truthy (detrend kw) then det (real_last da (Some r)) dm (the (detrend kw))
                    else Inr (real_last da (Some r))) = Inr prep
              \<and> (dims prep = dims (real_last da (Some r))
                    \<longrightarrow> data out = real_transform kw da r dm prep)))"
proof (intro conjI impI)
  show "dft det da dm0 (Some r) (kw\<lparr>shift := s\<rparr>) = dft det da dm0 (Some r) (kw\<lparr>shift := False\<rparr>)"
    by (simp add: dft_def dft_finish_def dft_kernel_def forced_shift_def cong: if_cong)
next
  assume h: "dft det da dm0 (Some r) kw = Inr out \<and> resolve_dim da dm0 (Some r) = Inr dm
        \<and> inj_on (new_name (prefix kw)) (set dm)
        \<and> (\<forall>d \<in> set dm. new_name (prefix kw) d \<notin> set (dims da))"
  then have r: "(\<forall>d \<in> set dm. coords out (new_name (prefix kw) d) = Some (kernel_order da r d))
     \<and> (\<exists>prep. (if truthy (detrend kw) then det (real_last da (Some r)) dm (the (detrend kw))
                 else Inr (real_last da (Some r))) = Inr prep
           \<and> (dims prep = dims (real_last da (Some r)) \<longrightarrow> data out = real_transform kw da r dm prep))"
    using real_dft_result[of det da dm0 r kw out dm] by blast
  from r show "\<forall>d \<in> set dm. coords out (new_name (prefix kw) d) = Some (kernel_order da r d)"
    by (rule conjunct1)
  from r show "\<exists>prep. (if truthy (detrend kw) then det (real_last da (Some r)) dm (the (detrend kw))
                    else Inr (real_last da (Some r))) = Inr prep
              \<and> (dims prep = dims (real_last da (Some r))
                    \<longrightarrow> data out = real_transform kw da r dm prep)"
    by (rule conjunct2)
qed

text \<open>
  The theorem on a four by four grid transformed with the real axis \<open>y\<close> and the default
  options, \<open>shift = True\<close> among them.
\<close>

theorem real_dft_never_shifts_witness:
  "\<exists>out. dft no_detrend (grid ''x'' [0, 1, 2, 3] ''y'' [0, 1, 2, 3] (\<lambda>i j. 1)) None (Some ''y'') defaults = Inr out
     \<and> resolve_dim (grid ''x'' [0, 1, 2, 3] ''y'' [0, 1, 2, 3] (\<lambda>i j. 1)) None (Some ''y'') = Inr [''x'', ''y'']
     \<and> coords out ''freq_x'' = Some [0, 1/4, -1/2, -1/4]
     \<and> coords out ''freq_y'' = Some [0, 1/4, 1/2]
     \<and> data out = real_transform defaults (grid ''x'' [0, 1, 2, 3] ''y'' [0, 1, 2, 3] (\<lambda>i j. 1)) ''y'' [''x'', ''y'']
                    (real_last (grid ''x'' [0, 1, 2, 3] ''y'' [0, 1, 2, 3] (\<lambda>i j. 1)) (Some ''y''))
     \<and> data out = transpose_nd [0, 1] (rfftn [0, 1]
                    (data (real_last (grid ''x'' [0, 1, 2, 3] ''y'' [0, 1, 2, 3] (\<lambda>i j. 1)) (Some ''y''))))"
proof -
  let ?G = "grid ''x'' [0, 1, 2, 3] ''y'' [0, 1, 2, 3] (\<lambda>i j. 1)"
  have "\<not> isl (dft no_detrend ?G None (Some ''y'') defaults)"
    by (simp add: eval_defs)
  then obtain out where R: "dft no_detrend ?G None (Some ''y'') defaults = Inr out"
    by (cases "dft no_detrend ?G None (Some ''y'') defaults") auto
  have DM: "resolve_dim ?G None (Some ''y'') = Inr [''x'', ''y'']"
    by (simp add: resolve_dim_def grid_def)
  have inj: "inj_on (new_name (prefix defaults)) (set [''x'', ''y''])"
    by (simp add: new_name_def defaults_def)
  have fresh: "\<forall>d \<in> set [''x'', ''y'']. new_name (prefix defaults) d \<notin> set (dims ?G)"
    by (simp add: new_name_def defaults_def grid_def)
  from real_dft_never_shifts[where det = no_detrend and da = ?G and ?dm0.0 = None and r = "''y''"
      and kw = defaults and out = out and dm = "[''x'', ''y'']", THEN conjunct2] R DM inj fresh
  have co: "\<forall>d \<in> set [''x'', ''y'']. coords out (new_name (prefix defaults) d) = Some (kernel_order ?G ''y'' d)"
    and ex: "\<exists>prep. (if truthy (detrend defaults)
                     then no_detrend (real_last ?G (Some ''y'')) [''x'', ''y''] (the (detrend defaults))
                     else Inr (real_last ?G (Some ''y''))) = Inr prep
              \<and> (dims prep = dims (real_last ?G (Some ''y''))
                    \<longrightarrow> data out = real_transform defaults ?G ''y'' [''x'', ''y''] prep)"
    by blast+
  have cx: "coords out ''freq_x'' = Some [0, 1/4, -1/2, -1/4]"
    using co by (simp add: new_name_def defaults_def kernel_order_def grid_def coord_def fftfreq_def)
  have cy: "coords out ''freq_y'' = Some [0, 1/4, 1/2]"
    using co by (simp add: new_name_def defaults_def kernel_order_def grid_def coord_def rfftfreq_def)
  have dt: "data out = real_transform defaults ?G ''y'' [''x'', ''y''] (real_last ?G (Some ''y''))"
    using ex by (auto simp: truthy_def defaults_def)
  have ev: "real_transform defaults ?G ''y'' [''x'', ''y''] (real_last ?G (Some ''y''))
            = transpose_nd [0, 1] (rfftn [0, 1] (data (real_last ?G (Some ''y''))))"
    by (simp add: real_transform_def defaults_def grid_def)
  show ?thesis using R DM cx cy dt ev by auto
qed

text \<open>
  Claim C2 as stated says that the axes other than the real one are still put in
  ascending order. On a four by four grid transformed with \<open>shift = True\<close> and the real
  axis \<open>y\<close>, the frequencies of \<open>x\<close> come out in kernel order, which is not ascending.
\<close>

theorem real_dft_shift_counterexample:
  "map_sum id (\<lambda>r. coords r ''freq_x'')
     (dft no_detrend (grid ''x'' [0, 1, 2, 3] ''y'' [0, 1, 2, 3] (\<lambda>i j. 1)) None (Some ''y'') defaults)
     = Inr (Some [0, 1/4, -1/2, -1/4])
   \<and> \<not> sorted [0, 1/4, -1/2, -1/4 :: real]
   \<and> shift defaults"
  by (simp add: eval_defs grid_def transpose_nd_def)

end
